theory Spec2Isabelle
  imports Main "HOL-Library.Sublist"
begin

section \<open>Values, requests and the outside world\<close>

text \<open>
  Python values that travel through the two scripts are the ones a JSON parser yields.
  \<open>JNull\<close> is Python's \<open>None\<close>: it is what \<open>resp.json()\<close> gives on the body
  \<open>null\<close> and what \<open>GitHubClient.call\<close> returns on failure. \<open>JObj\<close> is a parsed
  dict, read with \<open>map_of\<close>. Numbers are the integers (identifiers, counters).
\<close>

datatype json =
    JNull
  | JBool bool
  | JNum int
  | JStr string
  | JArr "json list"
  | JObj "(string \<times> json) list"

datatype py_error =
    IndexError
  | KeyError
  | TypeError
  | AttributeError
  | JSONDecodeError
  | RequestException
  | CryptoError

datatype verb = GET | POST | PUT | PATCH

text \<open>
  One HTTP request as \<open>requests\<close> sends it: the verb, the full URL, the token of the
  \<open>Authorization: token ...\<close> header, the \<open>json=\<close> argument (\<open>JNull\<close> when there is
  none) and the \<open>timeout=\<close> argument in seconds (\<open>None\<close> when it is not passed).
\<close>

record request =
  verb :: verb
  url :: string
  auth :: string
  payload :: json
  timeout :: "nat option"

text \<open>
  A response body is empty (\<open>resp.text\<close> is falsy), parses as JSON, or is non-empty text on
  which \<open>resp.json()\<close> raises. \<open>headers\<close> is \<open>resp.headers.get\<close>.
\<close>

datatype body = Empty_body | Json_body json | Bad_body

record response =
  status_code :: int
  content :: body
  headers :: "string \<Rightarrow> string option"

datatype outcome = Transport_failure | Response response

datatype message =
    Error_msg py_error
  | Invitation_sent string
  | Failed_to_invite string
  | No_invitations_found string
  | Accepted_invitation string
  | Failed_to_accept string
  | No_invitation_for string
  | Adding string
  | Added_ok string
  | Added_failed string
  | Key_fetch_failed int
  | Invalid_admin_token
  | Token_scopes "string list"
  | Missing_scopes "string list"
  | Permissions_ok
  | Setup_aborted
  | Summary nat nat
  | Failed_names "string list"
  | Missing_admin_token
  | No_tokens

text \<open>
  What a run does to the outside: requests sent, pauses (\<open>time.sleep\<close>, in milliseconds)
  and the lines printed that report an outcome. The trace is in the order of execution.
\<close>

datatype event = Net request | Sleep nat | Print message

text \<open>
  The outside world is a parameter of every run: the host answers a request knowing
  everything that happened before it (so its answer may depend on earlier requests and
  on the pauses), \<open>fmt\<close> is Python's string formatting of a parsed value inside an
  f-string, and \<open>sealed_box\<close> is the library's randomised sealed-box encryption of a
  value under a base64 key, base64-encoded again, or the exception it raises.
\<close>

record world =
  respond :: "event list \<Rightarrow> request \<Rightarrow> outcome"
  fmt :: "json \<Rightarrow> string"
  sealed_box :: "event list \<Rightarrow> string \<Rightarrow> string \<Rightarrow> py_error + string"

fun truthy :: "json \<Rightarrow> bool" where
  "truthy JNull = False"
| "truthy (JBool b) = b"
| "truthy (JNum n) = (n \<noteq> 0)"
| "truthy (JStr s) = (s \<noteq> [])"
| "truthy (JArr xs) = (xs \<noteq> [])"
| "truthy (JObj kvs) = (kvs \<noteq> [])"

fun is_list :: "json \<Rightarrow> bool" where
  "is_list (JArr xs) = True"
| "is_list _ = False"

text \<open>\<open>d.get(key, default)\<close>: only a dict has the method.\<close>

fun py_get :: "json \<Rightarrow> string \<Rightarrow> json \<Rightarrow> py_error + json" where
  "py_get (JObj kvs) k d = (case map_of kvs k of None \<Rightarrow> Inr d | Some v \<Rightarrow> Inr v)"
| "py_get _ k d = Inl AttributeError"

text \<open>\<open>d[key]\<close> with a string key: a missing key raises, and so does any other value.\<close>

fun py_item :: "json \<Rightarrow> string \<Rightarrow> py_error + json" where
  "py_item (JObj kvs) k = (case map_of kvs k of None \<Rightarrow> Inl KeyError | Some v \<Rightarrow> Inr v)"
| "py_item _ k = Inl TypeError"

text \<open>
  Sending a request: the host is asked with the history so far, the request is recorded,
  and a timeout or connection error is the exception \<open>requests\<close> raises.
\<close>

definition send :: "world \<Rightarrow> request \<Rightarrow> event list \<Rightarrow> (py_error + response) \<times> event list" where
  "send w rq s =
     (case respond w s rq of
        Transport_failure \<Rightarrow> (Inl RequestException, s @ [Net rq])
      | Response r \<Rightarrow> (Inr r, s @ [Net rq]))"

definition resp_json :: "response \<Rightarrow> py_error + json" where
  "resp_json r = (case content r of Json_body j \<Rightarrow> Inr j | _ \<Rightarrow> Inl JSONDecodeError)"

section \<open>setup_collaborators.py\<close>

subsection \<open>GitHubClient.call\<close>

definition api :: string where
  "api = ''https://api.github.com''"

text \<open>The request chosen by the \<open>if\<close>/\<open>elif\<close> chain on the method string.\<close>

definition client_request :: "string \<Rightarrow> string \<Rightarrow> string \<Rightarrow> json \<Rightarrow> request" where
  "client_request token endpoint method data =
     (let u = api @ endpoint
      in if method = ''POST'' then
           \<lparr>verb = POST, url = u, auth = token, payload = data, timeout = Some 10\<rparr>
         else if method = ''PUT'' then
           \<lparr>verb = PUT, url = u, auth = token, payload = data, timeout = Some 10\<rparr>
         else if method = ''PATCH'' then
           \<lparr>verb = PATCH, url = u, auth = token, payload = data, timeout = Some 10\<rparr>
         else
           \<lparr>verb = GET, url = u, auth = token, payload = JNull, timeout = Some 10\<rparr>)"

definition call :: "world \<Rightarrow> string \<Rightarrow> string \<Rightarrow> string \<Rightarrow> json \<Rightarrow> event list \<Rightarrow> json \<times> event list" where
  "call w token endpoint method data s =
     (case send w (client_request token endpoint method data) s of
        (Inl e, s1) \<Rightarrow> (JNull, s1 @ [Print (Error_msg e)])
      | (Inr resp, s1) \<Rightarrow>
          if status_code resp \<in> {200, 201, 204} then
            (if content resp \<noteq> Empty_body then
               (case resp_json resp of
                  Inl e \<Rightarrow> (JNull, s1 @ [Print (Error_msg e)])
                | Inr j \<Rightarrow> (j, s1))
             else (JObj [], s1))
          else (JNull, s1))"

subsection \<open>Configuration read from the environment\<close>

definition digit :: "nat \<Rightarrow> char" where
  "digit d = ''0123456789'' ! d"

fun str_nat :: "nat \<Rightarrow> string" where
  "str_nat n = (if n < 10 then [digit n] else str_nat (n div 10) @ [digit (n mod 10)])"

declare str_nat.simps [simp del]

definition getenv_default :: "(string \<Rightarrow> string option) \<Rightarrow> string \<Rightarrow> string \<Rightarrow> string" where
  "getenv_default getenv k d = (case getenv k of None \<Rightarrow> d | Some v \<Rightarrow> v)"

text \<open>\<open>[os.getenv(f"P{i}") for i in range(1, 21) if os.getenv(f"P{i}")]\<close>\<close>

definition numbered :: "(string \<Rightarrow> string option) \<Rightarrow> string \<Rightarrow> string list" where
  "numbered getenv p =
     List.map_filter
       (\<lambda>i. case getenv (p @ str_nat i) of
              None \<Rightarrow> None
            | Some v \<Rightarrow> if v \<noteq> [] then Some v else None)
       [1..<21]"

record config =
  ADMIN_USERNAME :: string
  TARGET_REPO :: string
  TOKENS :: "string list"
  USERS :: "string list"

definition default_repo :: "string \<Rightarrow> string \<Rightarrow> string" where
  "default_repo admin repo =
     (if repo = [] \<or> CHR ''/'' \<notin> set repo then admin @ ''/hapus'' else repo)"

definition load_config :: "(string \<Rightarrow> string option) \<Rightarrow> config" where
  "load_config getenv =
     (let admin = getenv_default getenv ''ADMIN_USERNAME'' [];
          repo = getenv_default getenv ''TARGET_REPO'' []
      in \<lparr>ADMIN_USERNAME = admin,
          TARGET_REPO = default_repo admin repo,
          TOKENS = numbered getenv ''PAT'',
          USERS = numbered getenv ''USERNAME''\<rparr>)"

subsection \<open>setup_collaborators\<close>

text \<open>Step 1, the loop over \<open>USERS[1:]\<close> with the admin client.\<close>

fun invite_phase :: "world \<Rightarrow> string \<Rightarrow> string \<Rightarrow> string list \<Rightarrow> event list \<Rightarrow> event list" where
  "invite_phase w admin repo [] s = s"
| "invite_phase w admin repo (u # us) s =
     (if u = [] then invite_phase w admin repo us s
      else
        (case call w admin (''/repos/'' @ repo @ ''/collaborators/'' @ u) ''PUT''
                (JObj [(''permission'', JStr ''push'')]) s of
           (result, s1) \<Rightarrow>
             invite_phase w admin repo us
               (s1 @ [Print (if result \<noteq> JNull then Invitation_sent u else Failed_to_invite u),
                      Sleep 800])))"

text \<open>
  The inner loop of step 2 over the fetched list: the first entry whose repository
  full name is the target is accepted with the same client, and the loop breaks. The
  result is the flag \<open>accepted\<close>.
\<close>

fun scan_invitations ::
  "world \<Rightarrow> string \<Rightarrow> string \<Rightarrow> string \<Rightarrow> json list \<Rightarrow> event list \<Rightarrow> (py_error + bool) \<times> event list" where
  "scan_invitations w t u repo [] s = (Inr False, s)"
| "scan_invitations w t u repo (invite # rest) s =
     (case py_get invite ''repository'' (JObj []) of
        Inl e \<Rightarrow> (Inl e, s)
      | Inr r \<Rightarrow>
          (case py_get r ''full_name'' JNull of
             Inl e \<Rightarrow> (Inl e, s)
           | Inr repo_name \<Rightarrow>
               if repo_name = JStr repo then
                 (case py_get invite ''id'' JNull of
                    Inl e \<Rightarrow> (Inl e, s)
                  | Inr invite_id \<Rightarrow>
                      (case call w t (''/user/repository_invitations/'' @ fmt w invite_id)
                              ''PATCH'' JNull s of
                         (result, s1) \<Rightarrow>
                           if result \<noteq> JNull then (Inr True, s1 @ [Print (Accepted_invitation u)])
                           else (Inr False, s1 @ [Print (Failed_to_accept u)])))
               else scan_invitations w t u repo rest s))"

text \<open>The body of the loop of step 2 for one pair \<open>(u, t)\<close> that is not skipped.\<close>

definition accept_member ::
  "world \<Rightarrow> string \<Rightarrow> string \<Rightarrow> string \<Rightarrow> event list \<Rightarrow> (py_error + unit) \<times> event list" where
  "accept_member w repo u t s =
     (case call w t ''/user/repository_invitations'' ''GET'' JNull s of
        (invitations, s1) \<Rightarrow>
          if \<not> truthy invitations \<or> \<not> is_list invitations then
            (Inr (), s1 @ [Print (No_invitations_found u)])
          else
            (case invitations of
               JArr invs \<Rightarrow>
                 (case scan_invitations w t u repo invs s1 of
                    (Inl e, s2) \<Rightarrow> (Inl e, s2)
                  | (Inr accepted, s2) \<Rightarrow>
                      (Inr (), (if \<not> accepted then s2 @ [Print (No_invitation_for u)] else s2)
                               @ [Sleep 800]))
             | _ \<Rightarrow> (Inl TypeError, s1)))"

text \<open>
  The last branch is never taken: the guard before it lets only a list through to the
  \<open>for\<close> loop.
\<close>

fun accept_phase ::
  "world \<Rightarrow> string \<Rightarrow> (string \<times> string) list \<Rightarrow> event list \<Rightarrow> (py_error + unit) \<times> event list" where
  "accept_phase w repo [] s = (Inr (), s)"
| "accept_phase w repo ((u, t) # rest) s =
     (if u = [] \<or> t = [] then accept_phase w repo rest s
      else
        (case accept_member w repo u t s of
           (Inl e, s1) \<Rightarrow> (Inl e, s1)
         | (Inr _, s1) \<Rightarrow> accept_phase w repo rest s1))"

definition setup_collaborators :: "config \<Rightarrow> world \<Rightarrow> event list \<Rightarrow> (py_error + unit) \<times> event list" where
  "setup_collaborators c w s =
     (case TOKENS c of
        [] \<Rightarrow> (Inl IndexError, s)
      | admin # _ \<Rightarrow>
          accept_phase w (TARGET_REPO c) (zip (drop 1 (USERS c)) (drop 1 (TOKENS c)))
            (invite_phase w admin (TARGET_REPO c) (drop 1 (USERS c)) s @ [Sleep 5000]))"

text \<open>The script: the configuration is loaded and \<open>setup_collaborators()\<close> is called.\<close>

definition collaborators_main ::
  "(string \<Rightarrow> string option) \<Rightarrow> world \<Rightarrow> (py_error + unit) \<times> event list" where
  "collaborators_main getenv w = setup_collaborators (load_config getenv) w []"

section \<open>auto_secrets.py\<close>

subsection \<open>Encryption functions\<close>

definition public_key_request :: "string \<Rightarrow> string \<Rightarrow> request" where
  "public_key_request repo token =
     \<lparr>verb = GET, url = api @ ''/repos/'' @ repo @ ''/actions/secrets/public-key'',
      auth = token, payload = JNull, timeout = None\<rparr>"

definition get_public_key ::
  "world \<Rightarrow> string \<Rightarrow> string \<Rightarrow> event list \<Rightarrow> (py_error + json) \<times> event list" where
  "get_public_key w repo token s =
     (case send w (public_key_request repo token) s of
        (Inl e, s1) \<Rightarrow> (Inl e, s1)
      | (Inr resp, s1) \<Rightarrow>
          if status_code resp = 200 then (resp_json resp, s1)
          else (Inr JNull, s1 @ [Print (Key_fetch_failed (status_code resp))]))"

text \<open>
  \<open>base64.b64decode\<close> takes text; the decoding, the sealed box and the final encoding
  are the libraries' and come from the world.
\<close>

definition encrypt_secret :: "world \<Rightarrow> event list \<Rightarrow> json \<Rightarrow> string \<Rightarrow> py_error + string" where
  "encrypt_secret w s public_key secret_value =
     (case public_key of
        JStr k \<Rightarrow> sealed_box w s k secret_value
      | _ \<Rightarrow> Inl TypeError)"

definition secret_request :: "string \<Rightarrow> string \<Rightarrow> string \<Rightarrow> string \<Rightarrow> json \<Rightarrow> request" where
  "secret_request repo token secret_name encrypted_value key_id =
     \<lparr>verb = PUT, url = api @ ''/repos/'' @ repo @ ''/actions/secrets/'' @ secret_name,
      auth = token,
      payload = JObj [(''encrypted_value'', JStr encrypted_value), (''key_id'', key_id)],
      timeout = None\<rparr>"

definition create_or_update_secret ::
  "world \<Rightarrow> string \<Rightarrow> string \<Rightarrow> string \<Rightarrow> string \<Rightarrow> event list \<Rightarrow> (py_error + bool) \<times> event list" where
  "create_or_update_secret w repo token secret_name secret_value s =
     (case get_public_key w repo token s of
        (Inl e, s1) \<Rightarrow> (Inl e, s1)
      | (Inr key_data, s1) \<Rightarrow>
          if \<not> truthy key_data then (Inr False, s1)
          else
            (case py_item key_data ''key'' of
               Inl e \<Rightarrow> (Inl e, s1)
             | Inr k \<Rightarrow>
                 (case encrypt_secret w s1 k secret_value of
                    Inl e \<Rightarrow> (Inl e, s1)
                  | Inr encrypted_value \<Rightarrow>
                      (case py_item key_data ''key_id'' of
                         Inl e \<Rightarrow> (Inl e, s1)
                       | Inr key_id \<Rightarrow>
                           (case send w (secret_request repo token secret_name
                                           encrypted_value key_id) s1 of
                              (Inl e, s2) \<Rightarrow> (Inl e, s2)
                            | (Inr resp, s2) \<Rightarrow> (Inr (status_code resp \<in> {201, 204}), s2))))))"

subsection \<open>Main setup\<close>

text \<open>
  The loop of \<open>setup_secrets\<close> over \<open>TOKENS.items()\<close>, with its two accumulators
  \<open>success_count\<close> and \<open>failed\<close>.
\<close>

fun secrets_loop ::
  "world \<Rightarrow> string \<Rightarrow> string \<Rightarrow> (string \<times> string) list \<Rightarrow> nat \<Rightarrow> string list \<Rightarrow> event list
     \<Rightarrow> (py_error + nat \<times> string list) \<times> event list" where
  "secrets_loop w repo token [] success_count failed s = (Inr (success_count, failed), s)"
| "secrets_loop w repo token ((secret_name, secret_value) # rest) success_count failed s =
     (case create_or_update_secret w repo token secret_name secret_value
             (s @ [Print (Adding secret_name)]) of
        (Inl e, s1) \<Rightarrow> (Inl e, s1)
      | (Inr ok, s1) \<Rightarrow>
          if ok then
            secrets_loop w repo token rest (success_count + 1) failed
              (s1 @ [Print (Added_ok secret_name)])
          else
            secrets_loop w repo token rest success_count (failed @ [secret_name])
              (s1 @ [Print (Added_failed secret_name)]))"

definition setup_secrets ::
  "world \<Rightarrow> string \<Rightarrow> string \<Rightarrow> (string \<times> string) list \<Rightarrow> event list
     \<Rightarrow> (py_error + nat \<times> string list) \<times> event list" where
  "setup_secrets w repo token tokens s =
     (case secrets_loop w repo token tokens 0 [] s of
        (Inl e, s1) \<Rightarrow> (Inl e, s1)
      | (Inr (success_count, failed), s1) \<Rightarrow>
          (Inr (success_count, failed),
           s1 @ [Print (Summary success_count (length tokens))]
              @ (if failed \<noteq> [] then [Print (Failed_names failed)] else [])))"

subsection \<open>Permission checker\<close>

text \<open>
  \<open>s.split(sep)\<close> for a non-empty separator: the pieces between the occurrences of the
  separator, found from the left without overlap. The second argument is the piece
  being read, reversed.
\<close>

function split_from :: "string \<Rightarrow> string \<Rightarrow> string \<Rightarrow> string list" where
  "split_from sep acc s =
     (if s = [] then [rev acc]
      else if sep \<noteq> [] \<and> take (length sep) s = sep then
        rev acc # split_from sep [] (drop (length sep) s)
      else split_from sep (hd s # acc) (tl s))"
  by pat_completeness auto
termination
  by (relation "measure (\<lambda>(sep, acc, s). length s)") auto

declare split_from.simps [simp del]

definition py_split :: "string \<Rightarrow> string \<Rightarrow> string list" where
  "py_split s sep = split_from sep [] s"

definition required :: "string list" where
  "required = [''repo'', ''workflow'']"

definition identity_request :: "string \<Rightarrow> request" where
  "identity_request admin_token =
     \<lparr>verb = GET, url = api @ ''/user'', auth = admin_token, payload = JNull, timeout = None\<rparr>"

text \<open>\<open>resp.headers.get("X-OAuth-Scopes", "")\<close> and its split at \<open>", "\<close>.\<close>

definition scopes_header :: "response \<Rightarrow> string" where
  "scopes_header resp = (case headers resp ''X-OAuth-Scopes'' of None \<Rightarrow> [] | Some h \<Rightarrow> h)"

definition scopes_of :: "response \<Rightarrow> string list" where
  "scopes_of resp = py_split (scopes_header resp) '', ''"

definition check_permissions ::
  "world \<Rightarrow> string \<Rightarrow> event list \<Rightarrow> (py_error + bool) \<times> event list" where
  "check_permissions w admin_token s =
     (case send w (identity_request admin_token) s of
        (Inl e, s1) \<Rightarrow> (Inl e, s1)
      | (Inr resp, s1) \<Rightarrow>
          if status_code resp \<noteq> 200 then (Inr False, s1 @ [Print Invalid_admin_token])
          else
            (let scopes = scopes_of resp;
                 missing = filter (\<lambda>x. x \<notin> set scopes) required
             in if missing \<noteq> [] then
                  (Inr False, s1 @ [Print (Token_scopes scopes), Print (Missing_scopes missing)])
                else (Inr True, s1 @ [Print (Token_scopes scopes), Print Permissions_ok])))"

subsection \<open>The script\<close>

text \<open>The dict \<open>TOKENS\<close>, in insertion order: \<open>PATi\<close> mapped to its value, for each set \<open>PATi\<close>.\<close>

definition named_tokens :: "(string \<Rightarrow> string option) \<Rightarrow> (string \<times> string) list" where
  "named_tokens getenv =
     List.map_filter
       (\<lambda>i. case getenv (''PAT'' @ str_nat i) of
              None \<Rightarrow> None
            | Some v \<Rightarrow> if v \<noteq> [] then Some (''PAT'' @ str_nat i, v) else None)
       [1..<21]"

text \<open>
  How the script ends: \<open>exit(1)\<close>, or the end of the file (also after the handler of the
  \<open>try\<close> block has printed an exception).
\<close>

datatype ending = Exit nat | Done

definition secrets_main :: "(string \<Rightarrow> string option) \<Rightarrow> world \<Rightarrow> ending \<times> event list" where
  "secrets_main getenv w =
     (let admin_token = getenv_default getenv ''PAT1'' [];
          repo = default_repo (getenv_default getenv ''ADMIN_USERNAME'' [])
                   (getenv_default getenv ''TARGET_REPO'' []);
          tokens = named_tokens getenv
      in if admin_token = [] then (Exit 1, [Print Missing_admin_token])
         else if tokens = [] then (Exit 1, [Print No_tokens])
         else
           (case check_permissions w admin_token [] of
              (Inl e, s1) \<Rightarrow> (Done, s1 @ [Print (Error_msg e)])
            | (Inr ok, s1) \<Rightarrow>
                if \<not> ok then (Exit 1, s1 @ [Print Setup_aborted])
                else
                  (case setup_secrets w repo admin_token tokens s1 of
                     (Inl e, s2) \<Rightarrow> (Done, s2 @ [Print (Error_msg e)])
                   | (Inr _, s2) \<Rightarrow> (Done, s2))))"

section \<open>Reading a trace\<close>

primrec requests_of :: "event list \<Rightarrow> request list" where
  "requests_of [] = []"
| "requests_of (e # es) = (case e of Net r \<Rightarrow> r # requests_of es | _ \<Rightarrow> requests_of es)"

text \<open>The per-entry outcomes a provisioning run reports, and the GET requests of a trace.\<close>

fun entry_of :: "event \<Rightarrow> (string \<times> bool) option" where
  "entry_of (Print (Added_ok n)) = Some (n, True)"
| "entry_of (Print (Added_failed n)) = Some (n, False)"
| "entry_of _ = None"

definition entry_results :: "event list \<Rightarrow> (string \<times> bool) list" where
  "entry_results s = List.map_filter entry_of s"

definition gets_of :: "event list \<Rightarrow> request list" where
  "gets_of s = filter (\<lambda>rq. verb rq = GET) (requests_of s)"

text \<open>
  One entry of the batch, read off the host's answers alone: at the moment the entry is
  attempted, the key fetch is answered with 200 and a mapping with a text key that the
  sealed box accepts and a key identifier, and the upsert of the sealed value is
  answered with 201 or 204.
\<close>

definition entry_succeeds ::
  "world \<Rightarrow> string \<Rightarrow> string \<Rightarrow> string \<Rightarrow> string \<Rightarrow> event list \<Rightarrow> bool" where
  "entry_succeeds w repo token n v s =
     (case respond w s (public_key_request repo token) of
        Transport_failure \<Rightarrow> False
      | Response r \<Rightarrow>
          status_code r = 200 \<and>
          (case content r of
             Json_body kd \<Rightarrow>
               truthy kd \<and>
               (case py_item kd ''key'' of
                  Inr (JStr k) \<Rightarrow>
                    (case sealed_box w (s @ [Net (public_key_request repo token)]) k v of
                       Inr c \<Rightarrow>
                         (case py_item kd ''key_id'' of
                            Inr kid \<Rightarrow>
                              (case respond w (s @ [Net (public_key_request repo token)])
                                      (secret_request repo token n c kid) of
                                 Response r2 \<Rightarrow> status_code r2 = 201 \<or> status_code r2 = 204
                               | Transport_failure \<Rightarrow> False)
                          | Inl e \<Rightarrow> False)
                     | Inl e \<Rightarrow> False)
                | _ \<Rightarrow> False)
           | _ \<Rightarrow> False))"

text \<open>Events of the accept phase: only GET and PATCH requests, and no settling wait.\<close>

definition accept_events :: "event list \<Rightarrow> bool" where
  "accept_events ev \<longleftrightarrow>
     (\<forall>rq\<in>set (requests_of ev). verb rq = GET \<or> verb rq = PATCH) \<and> Sleep 5000 \<notin> set ev"

text \<open>
  What the accept phase reads in one entry of the invitation list: the full name of its
  repository and its identifier (absent values where the entry has none), and whether
  the entry is a mapping whose \<open>repository\<close>, if present, is a mapping.
\<close>

definition repository_full_name :: "json \<Rightarrow> json" where
  "repository_full_name invite =
     (case py_get invite ''repository'' (JObj []) of
        Inl e \<Rightarrow> JNull
      | Inr r \<Rightarrow> (case py_get r ''full_name'' JNull of Inl e \<Rightarrow> JNull | Inr n \<Rightarrow> n))"

definition invitation_id :: "json \<Rightarrow> json" where
  "invitation_id invite = (case py_get invite ''id'' JNull of Inl e \<Rightarrow> JNull | Inr i \<Rightarrow> i)"

definition is_invitation :: "json \<Rightarrow> bool" where
  "is_invitation invite =
     (case py_get invite ''repository'' (JObj []) of
        Inl e \<Rightarrow> False
      | Inr r \<Rightarrow> (case py_get r ''full_name'' JNull of Inl e \<Rightarrow> False | Inr n \<Rightarrow> True))"

text \<open>The three requests of the bootstrap, as \<open>GitHubClient.call\<close> builds them.\<close>

definition invite_request :: "string \<Rightarrow> string \<Rightarrow> string \<Rightarrow> request" where
  "invite_request admin repo u =
     client_request admin (''/repos/'' @ repo @ ''/collaborators/'' @ u) ''PUT''
       (JObj [(''permission'', JStr ''push'')])"

definition fetch_request :: "string \<Rightarrow> request" where
  "fetch_request t = client_request t ''/user/repository_invitations'' ''GET'' JNull"

definition accept_request :: "world \<Rightarrow> string \<Rightarrow> json \<Rightarrow> request" where
  "accept_request w t invite =
     client_request t (''/user/repository_invitations/'' @ fmt w (invitation_id invite))
       ''PATCH'' JNull"

section \<open>Concrete hosts and environments\<close>

definition reply :: "int \<Rightarrow> body \<Rightarrow> response" where
  "reply code b = \<lparr>status_code = code, content = b, headers = (\<lambda>k. None)\<rparr>"

definition scopes_reply :: "int \<Rightarrow> string \<Rightarrow> response" where
  "scopes_reply code h =
     \<lparr>status_code = code, content = Json_body (JObj [(''login'', JStr ''admin'')]),
      headers = (\<lambda>k. if k = ''X-OAuth-Scopes'' then Some h else None)\<rparr>"

definition example_fmt :: "json \<Rightarrow> string" where
  "example_fmt j = (case j of JNum n \<Rightarrow> str_nat (nat n) | JStr x \<Rightarrow> x | _ \<Rightarrow> ''None'')"

definition example_seal :: "event list \<Rightarrow> string \<Rightarrow> string \<Rightarrow> py_error + string" where
  "example_seal s k v = Inr (''sealed:'' @ v)"

text \<open>A host that answers every request with the same status and scopes header.\<close>

definition scopes_world :: "int \<Rightarrow> string \<Rightarrow> world" where
  "scopes_world code h =
     \<lparr>respond = (\<lambda>s rq. Response (scopes_reply code h)),
      fmt = example_fmt,
      sealed_box = example_seal\<rparr>"

definition key_json :: json where
  "key_json = JObj [(''key_id'', JStr ''568250167242549743''), (''key'', JStr ''CQAAAAAAAAAAAAAAAAAAAAAAAAAAAAAAAAAAAAAAAAA='')]"

text \<open>A host whose answer depends on the request only.\<close>

definition fixed_world :: "(request \<Rightarrow> outcome) \<Rightarrow> world" where
  "fixed_world f = \<lparr>respond = (\<lambda>s rq. f rq), fmt = example_fmt, sealed_box = example_seal\<rparr>"

text \<open>A host that returns the public key and answers every upsert with the given status.\<close>

definition upsert_host :: "int \<Rightarrow> request \<Rightarrow> outcome" where
  "upsert_host code rq =
     (if verb rq = GET then Response (reply 200 (Json_body key_json))
      else Response (reply code Empty_body))"

definition env_of :: "(string \<times> string) list \<Rightarrow> string \<Rightarrow> string option" where
  "env_of kvs = map_of kvs"

definition two_tokens_env :: "string \<Rightarrow> string option" where
  "two_tokens_env = env_of [(''ADMIN_USERNAME'', ''adm''), (''TARGET_REPO'', ''adm/hapus''),
     (''PAT1'', ''t1''), (''PAT2'', ''t2''), (''USERNAME1'', ''adm''), (''USERNAME2'', ''bob'')]"

text \<open>The first public-key fetch is refused, the later ones and every upsert succeed.\<close>

definition first_fetch_refused :: world where
  "first_fetch_refused =
     \<lparr>respond = (\<lambda>s rq. if verb rq = GET then
                            (if gets_of s = [] then Response (reply 404 Bad_body)
                             else Response (reply 200 (Json_body key_json)))
                          else Response (reply 201 Empty_body)),
      fmt = example_fmt, sealed_box = example_seal\<rparr>"

text \<open>The key is served, every upsert fails in transport.\<close>

definition upsert_offline :: "request \<Rightarrow> outcome" where
  "upsert_offline rq =
     (if verb rq = GET then Response (reply 200 (Json_body key_json)) else Transport_failure)"

text \<open>The identity call is answered with both scopes, everything else fails in transport.\<close>

definition offline_after_identity :: "request \<Rightarrow> outcome" where
  "offline_after_identity rq =
     (if url rq = api @ ''/user'' then Response (scopes_reply 200 ''repo, workflow'')
      else Transport_failure)"

text \<open>The identity call shows a token without the scopes, everything else is accepted.\<close>

definition no_scopes_host :: "request \<Rightarrow> outcome" where
  "no_scopes_host rq =
     (if url rq = api @ ''/user'' then Response (scopes_reply 200 ''gist'')
      else Response (reply 204 Empty_body))"

text \<open>
  A host that answers the first three requests of a run (the identity call with both
  scopes, a key fetch with the key, an upsert with 201) and is out of reach afterwards.
\<close>

definition three_requests_then_offline :: world where
  "three_requests_then_offline =
     \<lparr>respond = (\<lambda>s rq. if length (requests_of s) < 3 then
                            (if url rq = api @ ''/user''
                             then Response (scopes_reply 200 ''repo, workflow'')
                             else if verb rq = GET
                             then Response (reply 200 (Json_body key_json))
                             else Response (reply 201 Empty_body))
                          else Transport_failure),
      fmt = example_fmt, sealed_box = example_seal\<rparr>"

text \<open>Three requests already sent.\<close>

definition spent :: "event list" where
  "spent = [Net (identity_request ''t1''), Net (identity_request ''t1''),
            Net (identity_request ''t1'')]"

text \<open>A host that lists two invitations to every member and accepts every write.\<close>

definition invitation_list :: json where
  "invitation_list =
     JArr [JObj [(''id'', JNum 7), (''repository'', JObj [(''full_name'', JStr ''other/repo'')])],
           JObj [(''id'', JNum 42), (''repository'', JObj [(''full_name'', JStr ''adm/hapus'')])]]"

definition invitations_host :: "request \<Rightarrow> outcome" where
  "invitations_host rq =
     (if verb rq = GET then Response (reply 200 (Json_body invitation_list))
      else Response (reply 204 Empty_body))"

text \<open>
  A host whose list has an entry with a null repository before the entry for the target.
\<close>

definition malformed_list :: json where
  "malformed_list =
     JArr [JObj [(''id'', JNum 7), (''repository'', JNull)],
           JObj [(''id'', JNum 42), (''repository'', JObj [(''full_name'', JStr ''adm/hapus'')])]]"

definition malformed_host :: "request \<Rightarrow> outcome" where
  "malformed_host rq =
     (if verb rq = GET then Response (reply 200 (Json_body malformed_list))
      else Response (reply 204 Empty_body))"

text \<open>Three usernames and two tokens: \<open>PAT2\<close> is not set.\<close>

definition gap_env :: "string \<Rightarrow> string option" where
  "gap_env = env_of [(''ADMIN_USERNAME'', ''adm''), (''TARGET_REPO'', ''adm/hapus''),
     (''PAT1'', ''t1''), (''PAT3'', ''t3''),
     (''USERNAME1'', ''adm''), (''USERNAME2'', ''alice''), (''USERNAME3'', ''bob'')]"

section \<open>Properties of the building blocks\<close>

lemma requests_of_append: "requests_of (a @ b) = requests_of a @ requests_of b"
  by (induction a) (auto split: event.splits)

lemma split_from_sublist:
  "p \<in> set (split_from sep acc s) \<Longrightarrow> \<exists>a b. rev acc @ s = a @ p @ b"
proof (induction sep acc s rule: split_from.induct)
  case (1 sep acc s)
  show ?case
  proof (cases "s = []")
    case True
    with "1.prems" have "p = rev acc" by (simp add: split_from.simps)
    with True show ?thesis by (intro exI[of _ "[]"]) simp
  next
    case ne: False
    show ?thesis
    proof (cases "sep \<noteq> [] \<and> take (length sep) s = sep")
      case True
      with ne "1.prems" have "p = rev acc \<or> p \<in> set (split_from sep [] (drop (length sep) s))"
        by (subst (asm) split_from.simps) auto
      then show ?thesis
      proof
        assume "p = rev acc"
        then have "rev acc @ s = [] @ p @ s" by simp
        then show ?thesis by blast
      next
        assume "p \<in> set (split_from sep [] (drop (length sep) s))"
        from "1.IH"(1)[OF ne True this] obtain a b where ab: "drop (length sep) s = a @ p @ b"
          by auto
        have "s = take (length sep) s @ drop (length sep) s" by simp
        with ab have "rev acc @ s = (rev acc @ take (length sep) s @ a) @ p @ b" by simp
        then show ?thesis by blast
      qed
    next
      case False
      with ne "1.prems" have "p \<in> set (split_from sep (hd s # acc) (tl s))"
        by (subst (asm) split_from.simps) auto
      from "1.IH"(2)[OF ne False this] obtain a b where "rev (hd s # acc) @ tl s = a @ p @ b"
        by auto
      with ne have "rev acc @ s = a @ p @ b" by (cases s) auto
      then show ?thesis by blast
    qed
  qed
qed

lemma py_split_sublist: "p \<in> set (py_split h sep) \<Longrightarrow> sublist p h"
  unfolding py_split_def sublist_def using split_from_sublist[of p sep "[]" h] by auto

lemma check_permissions_value:
  assumes "respond w s (identity_request admin_token) = Response r"
  shows "fst (check_permissions w admin_token s) =
           Inr (status_code r = 200 \<and> ''repo'' \<in> set (scopes_of r)
                \<and> ''workflow'' \<in> set (scopes_of r))"
  using assms by (auto simp: check_permissions_def send_def required_def Let_def)

section \<open>The permission preflight\<close>

text \<open>
  C6. Whatever response the identity call gets: the preflight returns false when the
  status is not 200; it returns false when the scopes header does not contain
  \<open>workflow\<close>, whether or not it contains \<open>repo\<close>; when it returns true, the status is
  200 and both \<open>repo\<close> and \<open>workflow\<close> occur in the scopes header. Exactly, it returns
  true iff the status is 200 and both names are among the pieces of the header split at
  comma-space.
\<close>

theorem check_permissions_scopes:
  assumes "respond w s (identity_request admin_token) = Response r"
  shows "(status_code r \<noteq> 200 \<longrightarrow> fst (check_permissions w admin_token s) = Inr False)
       \<and> (\<not> sublist ''workflow'' (scopes_header r) \<longrightarrow>
            fst (check_permissions w admin_token s) = Inr False)
       \<and> (fst (check_permissions w admin_token s) = Inr True \<longrightarrow>
            status_code r = 200 \<and> sublist ''repo'' (scopes_header r)
            \<and> sublist ''workflow'' (scopes_header r))
       \<and> (fst (check_permissions w admin_token s) = Inr True \<longleftrightarrow>
            status_code r = 200 \<and> ''repo'' \<in> set (scopes_of r)
            \<and> ''workflow'' \<in> set (scopes_of r))"
proof -
  note v = check_permissions_value[OF assms]
  have sub: "x \<in> set (scopes_of r) \<Longrightarrow> sublist x (scopes_header r)" for x
    unfolding scopes_of_def by (rule py_split_sublist)
  show ?thesis using v sub by auto
qed

text \<open>With \<open>repo\<close> granted and \<open>workflow\<close> not, the preflight says no.\<close>

theorem check_permissions_scopes_witness:
  "respond (scopes_world 200 ''repo'') [] (identity_request ''t1'')
     = Response (scopes_reply 200 ''repo'')
   \<and> fst (check_permissions (scopes_world 200 ''repo'') ''t1'' []) = Inr False"
  using check_permissions_scopes[of "scopes_world 200 ''repo''" "[]" "''t1''"
          "scopes_reply 200 ''repo''"]
  by (simp add: scopes_world_def scopes_header_def scopes_reply_def sublist_Cons_right)

section \<open>Success and failure of one HTTP operation\<close>

lemma call_result:
  assumes "respond w s (client_request token endpoint method data) = Response r"
  shows "fst (call w token endpoint method data s) =
          (if status_code r = 200 \<or> status_code r = 201 \<or> status_code r = 204 then
             (case content r of Empty_body \<Rightarrow> JObj [] | Json_body j \<Rightarrow> j | Bad_body \<Rightarrow> JNull)
           else JNull)"
  using assms
  by (auto simp: call_def send_def resp_json_def split: body.splits)

lemma get_public_key_result:
  assumes "respond w s (public_key_request repo token) = Response r"
  shows "fst (get_public_key w repo token s) =
           (if status_code r = 200 then resp_json r else Inr JNull)"
  using assms by (auto simp: get_public_key_def send_def)

lemma upsert_result:
  assumes "get_public_key w repo token s = (Inr key_data, s1)" "truthy key_data"
    "py_item key_data ''key'' = Inr k" "encrypt_secret w s1 k secret_value = Inr ev"
    "py_item key_data ''key_id'' = Inr kid"
    "respond w s1 (secret_request repo token secret_name ev kid) = Response r"
  shows "create_or_update_secret w repo token secret_name secret_value s =
           (Inr (status_code r = 201 \<or> status_code r = 204),
            s1 @ [Net (secret_request repo token secret_name ev kid)])"
  using assms by (auto simp: create_or_update_secret_def send_def)

lemma upsert_raises:
  assumes "get_public_key w repo token s = (Inr key_data, s1)" "truthy key_data"
    "py_item key_data ''key'' = Inr k" "encrypt_secret w s1 k secret_value = Inr ev"
    "py_item key_data ''key_id'' = Inr kid"
    "respond w s1 (secret_request repo token secret_name ev kid) = Transport_failure"
  shows "create_or_update_secret w repo token secret_name secret_value s =
           (Inl RequestException, s1 @ [Net (secret_request repo token secret_name ev kid)])"
  using assms by (auto simp: create_or_update_secret_def send_def)

text \<open>
  C4, as the code has it. A call through \<open>GitHubClient.call\<close> that gets a response
  returns the parsed body when the status is 200, 201 or 204 (the empty mapping when the
  body is empty, the absent value when a non-empty body does not parse) and the absent
  value for every other status. The public-key fetch yields the parsed body iff the
  status is 200. The secret upsert PUT counts as successful iff the status is 201 or 204.
\<close>

theorem success_statuses:
  "(respond w s (client_request token endpoint meth data) = Response r \<longrightarrow>
      fst (call w token endpoint meth data s) =
        (if status_code r = 200 \<or> status_code r = 201 \<or> status_code r = 204 then
           (case content r of Empty_body \<Rightarrow> JObj [] | Json_body j \<Rightarrow> j | Bad_body \<Rightarrow> JNull)
         else JNull))
   \<and> (respond w s (public_key_request repo token) = Response r \<longrightarrow>
        fst (get_public_key w repo token s) =
          (if status_code r = 200 then resp_json r else Inr JNull))
   \<and> (get_public_key w repo token s = (Inr key_data, s1) \<and> truthy key_data
        \<and> py_item key_data ''key'' = Inr k \<and> encrypt_secret w s1 k secret_value = Inr ev
        \<and> py_item key_data ''key_id'' = Inr kid
        \<and> respond w s1 (secret_request repo token secret_name ev kid) = Response r2 \<longrightarrow>
        fst (create_or_update_secret w repo token secret_name secret_value s) =
          Inr (status_code r2 = 201 \<or> status_code r2 = 204))"
  using call_result[of w s token endpoint meth data r]
    get_public_key_result[of w s repo token r]
    upsert_result[of w repo token s key_data s1 k secret_value ev kid secret_name r2]
  by simp

theorem success_statuses_witness:
  "respond (fixed_world (upsert_host 204)) [] (client_request ''t1'' ''/user'' ''GET'' JNull)
     = Response (reply 200 (Json_body key_json))
   \<and> fst (call (fixed_world (upsert_host 204)) ''t1'' ''/user'' ''GET'' JNull []) = key_json
   \<and> fst (get_public_key (fixed_world (upsert_host 204)) ''adm/hapus'' ''t1'' []) = Inr key_json
   \<and> fst (create_or_update_secret (fixed_world (upsert_host 204)) ''adm/hapus'' ''t1''
            ''PAT1'' ''t1'' [])
       = Inr True"
  using success_statuses[of "fixed_world (upsert_host 204)" "[]" "''t1''" "''/user''" "''GET''"
      JNull "reply 200 (Json_body key_json)" "''adm/hapus''" key_json
      "[Net (public_key_request ''adm/hapus'' ''t1'')]" "JStr ''CQAAAAAAAAAAAAAAAAAAAAAAAAAAAAAAAAAAAAAAAAA=''" "''t1''" "''sealed:t1''"
      "JStr ''568250167242549743''" "''PAT1''" "reply 204 Empty_body"]
  by (simp add: get_public_key_def send_def fixed_world_def
      upsert_host_def public_key_request_def secret_request_def reply_def resp_json_def
      key_json_def encrypt_secret_def example_seal_def client_request_def)

text \<open>
  The claim as written fails at the upsert: the host answers the PUT with status 200,
  one of the three statuses of the claim, and \<open>create_or_update_secret\<close> reports failure.
\<close>

theorem upsert_200_counterexample:
  "respond (fixed_world (upsert_host 200)) [Net (public_key_request ''adm/hapus'' ''t1'')]
      (secret_request ''adm/hapus'' ''t1'' ''PAT1'' ''sealed:t1'' (JStr ''568250167242549743''))
     = Response (reply 200 Empty_body)
   \<and> status_code (reply 200 Empty_body) \<in> {200, 201, 204}
   \<and> fst (create_or_update_secret (fixed_world (upsert_host 200)) ''adm/hapus'' ''t1''
            ''PAT1'' ''t1'' [])
       = Inr False"
  by (simp add: create_or_update_secret_def get_public_key_def send_def fixed_world_def
      upsert_host_def public_key_request_def secret_request_def reply_def resp_json_def
      key_json_def encrypt_secret_def example_seal_def)

section \<open>The method string of a call\<close>

text \<open>
  C10. A call whose method string is none of \<open>POST\<close>, \<open>PUT\<close>, \<open>PATCH\<close> is not
  rejected: it behaves exactly as a \<open>GET\<close> call without body, and the one request it
  sends is a GET to the endpoint.
\<close>

theorem call_other_method:
  assumes "method \<noteq> ''POST''" "method \<noteq> ''PUT''" "method \<noteq> ''PATCH''"
  shows "call w token endpoint method data s = call w token endpoint ''GET'' JNull s
       \<and> requests_of (snd (call w token endpoint method data s)) =
           requests_of s @ [\<lparr>verb = GET, url = api @ endpoint, auth = token,
                             payload = JNull, timeout = Some 10\<rparr>]"
  using assms
  by (auto simp: call_def client_request_def send_def requests_of_append resp_json_def
      split: outcome.splits body.splits)

theorem call_other_method_witness:
  "''DELETE'' \<noteq> ''POST'' \<and> ''DELETE'' \<noteq> ''PUT'' \<and> ''DELETE'' \<noteq> ''PATCH''
   \<and> call (fixed_world (upsert_host 204)) ''t1'' ''/repos/adm/hapus'' ''DELETE'' (JNum 1) []
      = call (fixed_world (upsert_host 204)) ''t1'' ''/repos/adm/hapus'' ''GET'' JNull []
   \<and> requests_of (snd (call (fixed_world (upsert_host 204)) ''t1'' ''/repos/adm/hapus''
                          ''DELETE'' (JNum 1) []))
      = [\<lparr>verb = GET, url = api @ ''/repos/adm/hapus'', auth = ''t1'', payload = JNull,
          timeout = Some 10\<rparr>]"
proof -
  have a: "''DELETE'' \<noteq> ''POST''" "''DELETE'' \<noteq> ''PUT''" "''DELETE'' \<noteq> ''PATCH''"
    by simp_all
  note t = call_other_method[OF a, of "fixed_world (upsert_host 204)" "''t1''"
      "''/repos/adm/hapus''" "JNum 1" "[]"]
  have g: "call (fixed_world (upsert_host 204)) ''t1'' ''/repos/adm/hapus'' ''DELETE'' (JNum 1) []
      = call (fixed_world (upsert_host 204)) ''t1'' ''/repos/adm/hapus'' ''GET'' JNull []"
    using t by (rule conjunct1)
  have r: "requests_of (snd (call (fixed_world (upsert_host 204)) ''t1'' ''/repos/adm/hapus''
              ''DELETE'' (JNum 1) []))
      = [\<lparr>verb = GET, url = api @ ''/repos/adm/hapus'', auth = ''t1'', payload = JNull,
          timeout = Some 10\<rparr>]"
    using conjunct2[OF t] by simp
  show ?thesis using a g r by blast
qed

section \<open>Secret provisioning, entry by entry\<close>

lemma entry_results_append: "entry_results (a @ b) = entry_results a @ entry_results b"
  by (simp add: entry_results_def map_filter_def)

lemma gets_of_append: "gets_of (a @ b) = gets_of a @ gets_of b"
  by (simp add: gets_of_def requests_of_append)

lemma entry_results_simps [simp]:
  "entry_results [] = []"
  "entry_results (Net r # s) = entry_results s"
  "entry_results (Sleep k # s) = entry_results s"
  "entry_results (Print (Added_ok n) # s) = (n, True) # entry_results s"
  "entry_results (Print (Added_failed n) # s) = (n, False) # entry_results s"
  "entry_results (Print (Adding n) # s) = entry_results s"
  "entry_results (Print (Key_fetch_failed c) # s) = entry_results s"
  by (auto simp: entry_results_def map_filter_def)

lemma gets_of_simps [simp]:
  "gets_of [] = []"
  "gets_of (Net r # s) = (if verb r = GET then r # gets_of s else gets_of s)"
  "gets_of (Sleep k # s) = gets_of s"
  "gets_of (Print m # s) = gets_of s"
  by (simp_all add: gets_of_def)

lemma entry_attempt:
  assumes no_tf: "\<forall>s rq. respond w s rq \<noteq> Transport_failure"
    and keys: "\<forall>s r. respond w s (public_key_request repo token) = Response r \<longrightarrow>
                 status_code r = 200 \<longrightarrow>
                 (\<exists>kd. content r = Json_body kd \<and>
                    (truthy kd \<longrightarrow> (\<exists>k kid. py_item kd ''key'' = Inr (JStr k)
                        \<and> py_item kd ''key_id'' = Inr kid
                        \<and> (\<forall>s' v. \<exists>c. sealed_box w s' k v = Inr c))))"
  shows "\<exists>ev rest. create_or_update_secret w repo token n v s =
             (Inr (entry_succeeds w repo token n v s), s @ ev)
           \<and> entry_results ev = [] \<and> gets_of ev = [public_key_request repo token]
           \<and> ev = Net (public_key_request repo token) # rest"
proof -
  obtain r where r: "respond w s (public_key_request repo token) = Response r"
    using no_tf by (cases "respond w s (public_key_request repo token)") auto
  have g: "verb (public_key_request repo token) = GET" by (simp add: public_key_request_def)
  show ?thesis
  proof (cases "status_code r = 200")
    case False
    with r g show ?thesis
      by (auto simp: create_or_update_secret_def get_public_key_def send_def entry_succeeds_def)
  next
    case True
    with keys r obtain kd where kd: "content r = Json_body kd"
      and good: "truthy kd \<longrightarrow> (\<exists>k kid. py_item kd ''key'' = Inr (JStr k)
                        \<and> py_item kd ''key_id'' = Inr kid
                        \<and> (\<forall>s' v. \<exists>c. sealed_box w s' k v = Inr c))"
      by blast
    have gp: "get_public_key w repo token s = (Inr kd, s @ [Net (public_key_request repo token)])"
      using r True kd by (simp add: get_public_key_def send_def resp_json_def)
    show ?thesis
    proof (cases "truthy kd")
      case False
      with gp g r True kd show ?thesis
        by (auto simp: create_or_update_secret_def entry_succeeds_def)
    next
      case t: True
      with good obtain k kid where k: "py_item kd ''key'' = Inr (JStr k)"
        and kid: "py_item kd ''key_id'' = Inr kid"
        and sb: "\<forall>s' v. \<exists>c. sealed_box w s' k v = Inr c" by blast
      from sb obtain c where c: "sealed_box w (s @ [Net (public_key_request repo token)]) k v = Inr c"
        by blast
      have enc: "encrypt_secret w (s @ [Net (public_key_request repo token)]) (JStr k) v = Inr c"
        using c by (simp add: encrypt_secret_def)
      obtain r2 where r2: "respond w (s @ [Net (public_key_request repo token)])
                             (secret_request repo token n c kid) = Response r2"
        using no_tf by (cases "respond w (s @ [Net (public_key_request repo token)])
                             (secret_request repo token n c kid)") auto
      have p: "verb (secret_request repo token n c kid) = PUT" by (simp add: secret_request_def)
      have es: "entry_succeeds w repo token n v s = (status_code r2 = 201 \<or> status_code r2 = 204)"
        using r True kd t k kid c r2 by (simp add: entry_succeeds_def)
      from upsert_result[OF gp t k enc kid r2] es g p show ?thesis by auto
    qed
  qed
qed

lemma secrets_loop_all:
  assumes no_tf: "\<forall>s rq. respond w s rq \<noteq> Transport_failure"
    and keys: "\<forall>s r. respond w s (public_key_request repo token) = Response r \<longrightarrow>
                 status_code r = 200 \<longrightarrow>
                 (\<exists>kd. content r = Json_body kd \<and>
                    (truthy kd \<longrightarrow> (\<exists>k kid. py_item kd ''key'' = Inr (JStr k)
                        \<and> py_item kd ''key_id'' = Inr kid
                        \<and> (\<forall>s' v. \<exists>c. sealed_box w s' k v = Inr c))))"
  shows "\<exists>rs ev. secrets_loop w repo token tokens n0 f0 s =
            (Inr (n0 + length (filter snd rs), f0 @ map fst (filter (\<lambda>p. \<not> snd p) rs)), s @ ev)
           \<and> entry_results ev = rs \<and> map fst rs = map fst tokens
           \<and> gets_of ev = replicate (length tokens) (public_key_request repo token)"
proof (induction tokens arbitrary: n0 f0 s)
  case Nil
  show ?case by (intro exI[of _ "[]"]) simp
next
  case (Cons p tokens)
  obtain n v where p: "p = (n, v)" by (cases p)
  from entry_attempt[OF no_tf keys, of n v "s @ [Print (Adding n)]"]
  obtain b ev where a: "create_or_update_secret w repo token n v (s @ [Print (Adding n)])
                          = (Inr b, (s @ [Print (Adding n)]) @ ev)"
    and e: "entry_results ev = []" and g: "gets_of ev = [public_key_request repo token]"
    by blast
  show ?case
  proof (cases b)
    case True
    from Cons.IH[of "n0 + 1" f0 "((s @ [Print (Adding n)]) @ ev) @ [Print (Added_ok n)]"]
    obtain rs ev' where l: "secrets_loop w repo token tokens (n0 + 1) f0
             (((s @ [Print (Adding n)]) @ ev) @ [Print (Added_ok n)]) =
            (Inr (n0 + 1 + length (filter snd rs), f0 @ map fst (filter (\<lambda>p. \<not> snd p) rs)),
             (((s @ [Print (Adding n)]) @ ev) @ [Print (Added_ok n)]) @ ev')"
      and r: "entry_results ev' = rs" "map fst rs = map fst tokens"
        "gets_of ev' = replicate (length tokens) (public_key_request repo token)"
      by blast
    show ?thesis
      apply (rule exI[of _ "(n, True) # rs"])
      apply (rule exI[of _ "[Print (Adding n)] @ ev @ [Print (Added_ok n)] @ ev'"])
      using p a True l r e g
      by (simp add: entry_results_append gets_of_append)
  next
    case False
    from Cons.IH[of n0 "f0 @ [n]" "((s @ [Print (Adding n)]) @ ev) @ [Print (Added_failed n)]"]
    obtain rs ev' where l: "secrets_loop w repo token tokens n0 (f0 @ [n])
             (((s @ [Print (Adding n)]) @ ev) @ [Print (Added_failed n)]) =
            (Inr (n0 + length (filter snd rs), (f0 @ [n]) @ map fst (filter (\<lambda>p. \<not> snd p) rs)),
             (((s @ [Print (Adding n)]) @ ev) @ [Print (Added_failed n)]) @ ev')"
      and r: "entry_results ev' = rs" "map fst rs = map fst tokens"
        "gets_of ev' = replicate (length tokens) (public_key_request repo token)"
      by blast
    show ?thesis
      apply (rule exI[of _ "(n, False) # rs"])
      apply (rule exI[of _ "[Print (Adding n)] @ ev @ [Print (Added_failed n)] @ ev'"])
      using p a False l r e g
      by (simp add: entry_results_append gets_of_append)
  qed
qed

lemma create_extends:
  "\<exists>ev. snd (create_or_update_secret w repo token n v s) = s @ ev"
  by (auto simp: create_or_update_secret_def get_public_key_def send_def
      split: outcome.splits sum.splits prod.splits)

lemma secrets_loop_extends:
  "\<exists>ev. snd (secrets_loop w repo token tokens n0 f0 s) = s @ ev"
proof (induction tokens arbitrary: n0 f0 s)
  case Nil
  show ?case by simp
next
  case (Cons p tokens)
  obtain n v where p: "p = (n, v)" by (cases p)
  obtain r s1 where c: "create_or_update_secret w repo token n v (s @ [Print (Adding n)]) = (r, s1)"
    by (cases "create_or_update_secret w repo token n v (s @ [Print (Adding n)])")
  from create_extends[of w repo token n v "s @ [Print (Adding n)]"] c
  obtain ev where s1: "s1 = s @ [Print (Adding n)] @ ev" by auto
  show ?case
  proof (cases r)
    case (Inl e)
    with p c s1 show ?thesis by simp
  next
    case (Inr ok)
    show ?thesis
    proof (cases ok)
      case True
      from Cons.IH[of "n0 + 1" f0 "s1 @ [Print (Added_ok n)]"]
      obtain ev' where "snd (secrets_loop w repo token tokens (n0 + 1) f0 (s1 @ [Print (Added_ok n)]))
                         = (s1 @ [Print (Added_ok n)]) @ ev'" by blast
      with p c s1 Inr True show ?thesis by simp
    next
      case False
      from Cons.IH[of n0 "f0 @ [n]" "s1 @ [Print (Added_failed n)]"]
      obtain ev' where "snd (secrets_loop w repo token tokens n0 (f0 @ [n]) (s1 @ [Print (Added_failed n)]))
                         = (s1 @ [Print (Added_failed n)]) @ ev'" by blast
      with p c s1 Inr False show ?thesis by simp
    qed
  qed
qed

lemma loop_split:
  "secrets_loop w repo token (pre @ post) c f s =
     (case secrets_loop w repo token pre c f s of
        (Inl e, s1) \<Rightarrow> (Inl e, s1)
      | (Inr cf, s1) \<Rightarrow> secrets_loop w repo token post (fst cf) (snd cf) s1)"
proof (induction pre arbitrary: c f s)
  case Nil
  show ?case by simp
next
  case (Cons p pre)
  obtain n v where p: "p = (n, v)" by (cases p)
  obtain r s1 where a: "create_or_update_secret w repo token n v (s @ [Print (Adding n)]) = (r, s1)"
    by (cases "create_or_update_secret w repo token n v (s @ [Print (Adding n)])")
  show ?case
  proof (cases r)
    case (Inl e)
    with p a show ?thesis by simp
  next
    case (Inr ok)
    with p a Cons.IH show ?thesis by simp
  qed
qed

lemma loop_trace_indep:
  "snd (secrets_loop w repo token ts c f s) = snd (secrets_loop w repo token ts c' f' s)"
proof (induction ts arbitrary: c f c' f' s)
  case Nil
  show ?case by simp
next
  case (Cons p ts)
  obtain n v where p: "p = (n, v)" by (cases p)
  obtain r s1 where a: "create_or_update_secret w repo token n v (s @ [Print (Adding n)]) = (r, s1)"
    by (cases "create_or_update_secret w repo token n v (s @ [Print (Adding n)])")
  show ?case
  proof (cases r)
    case (Inl e)
    with p a show ?thesis by simp
  next
    case (Inr ok)
    show ?thesis
    proof (cases ok)
      case True
      with p a Inr Cons.IH[of "c + 1" f "s1 @ [Print (Added_ok n)]" "c' + 1" f']
      show ?thesis by simp
    next
      case False
      with p a Inr Cons.IH[of c "f @ [n]" "s1 @ [Print (Added_failed n)]" c' "f' @ [n]"]
      show ?thesis by simp
    qed
  qed
qed

lemma loop_step_trace:
  assumes "create_or_update_secret w repo token n v (s @ [Print (Adding n)]) = (Inr b, s1)"
  shows "snd (secrets_loop w repo token ((n, v) # post) c f s) =
           snd (secrets_loop w repo token post 0 []
                  (s1 @ [Print (if b then Added_ok n else Added_failed n)]))"
proof (cases b)
  case True
  with assms loop_trace_indep[of w repo token post "c + 1" f "s1 @ [Print (Added_ok n)]" 0 "[]"]
  show ?thesis by simp
next
  case False
  with assms loop_trace_indep[of w repo token post c "f @ [n]" "s1 @ [Print (Added_failed n)]" 0 "[]"]
  show ?thesis by simp
qed

lemma entry_results_tail [simp]:
  "entry_results [Print (Summary a b)] = []"
  "entry_results [Print (Summary a b), Print (Failed_names f)] = []"
  by (simp_all add: entry_results_def map_filter_def)

text \<open>
  C5, as the code has it. Provided no request of the run fails in transport and every
  public-key response with status 200 parses to a value that is falsy or has a text
  \<open>key\<close> the sealed box accepts and a \<open>key_id\<close>: for every list of name/value
  pairs the run completes, it reports exactly one outcome per input name, in the order of
  the input, \<open>success_count\<close> is the number of successes and \<open>failed\<close> lists the names
  that failed, and exactly one public-key fetch is made per entry. The outcome of each
  entry is decided by the host's answers to that entry's own key fetch and upsert, at the
  moment the entries before it have been processed, whatever their outcomes were: it is
  a success iff the fetch is answered with 200 and a usable key and the upsert with 201
  or 204.
\<close>

theorem every_entry_attempted:
  assumes no_tf: "\<forall>s rq. respond w s rq \<noteq> Transport_failure"
    and keys: "\<forall>s r. respond w s (public_key_request repo token) = Response r \<longrightarrow>
                 status_code r = 200 \<longrightarrow>
                 (\<exists>kd. content r = Json_body kd \<and>
                    (truthy kd \<longrightarrow> (\<exists>k kid. py_item kd ''key'' = Inr (JStr k)
                        \<and> py_item kd ''key_id'' = Inr kid
                        \<and> (\<forall>s' v. \<exists>c. sealed_box w s' k v = Inr c))))"
  shows "\<exists>rs ev. setup_secrets w repo token tokens s =
            (Inr (length (filter snd rs), map fst (filter (\<lambda>p. \<not> snd p) rs)), s @ ev)
           \<and> entry_results ev = rs \<and> map fst rs = map fst tokens
           \<and> gets_of ev = replicate (length tokens) (public_key_request repo token)
           \<and> (\<forall>pre n v post. tokens = pre @ (n, v) # post \<longrightarrow>
                (\<exists>c f s1 rest.
                    secrets_loop w repo token pre 0 [] s = (Inr (c, f), s1)
                  \<and> rs ! length pre =
                      (n, entry_succeeds w repo token n v (s1 @ [Print (Adding n)]))
                  \<and> s @ ev = s1 @ Print (Adding n) # Net (public_key_request repo token) # rest))"
proof -
  from secrets_loop_all[OF no_tf keys, of tokens 0 "[]" s]
  obtain rs ev where l: "secrets_loop w repo token tokens 0 [] s =
            (Inr (length (filter snd rs), map fst (filter (\<lambda>p. \<not> snd p) rs)), s @ ev)"
    and r: "entry_results ev = rs" "map fst rs = map fst tokens"
      "gets_of ev = replicate (length tokens) (public_key_request repo token)"
    by auto
  define tail where "tail = [Print (Summary (length (filter snd rs)) (length tokens))]
              @ (if map fst (filter (\<lambda>p. \<not> snd p) rs) \<noteq> []
                 then [Print (Failed_names (map fst (filter (\<lambda>p. \<not> snd p) rs)))] else [])"
  have tail: "entry_results tail = []" "gets_of tail = []"
    by (simp_all add: tail_def)
  have run: "setup_secrets w repo token tokens s =
            (Inr (length (filter snd rs), map fst (filter (\<lambda>p. \<not> snd p) rs)), s @ (ev @ tail))"
    using l by (simp add: setup_secrets_def tail_def)
  have tie: "\<exists>c f s1 rest.
                    secrets_loop w repo token pre 0 [] s = (Inr (c, f), s1)
                  \<and> rs ! length pre =
                      (n, entry_succeeds w repo token n v (s1 @ [Print (Adding n)]))
                  \<and> s @ (ev @ tail) =
                      s1 @ Print (Adding n) # Net (public_key_request repo token) # rest"
    if sp: "tokens = pre @ (n, v) # post" for pre n v post
  proof -
    from secrets_loop_all[OF no_tf keys, of pre 0 "[]" s]
    obtain rs1 ev1 where l1: "secrets_loop w repo token pre 0 [] s =
            (Inr (length (filter snd rs1), map fst (filter (\<lambda>p. \<not> snd p) rs1)), s @ ev1)"
      and r1: "entry_results ev1 = rs1" "map fst rs1 = map fst pre"
      by auto
    define b where "b = entry_succeeds w repo token n v ((s @ ev1) @ [Print (Adding n)])"
    from entry_attempt[OF no_tf keys, of n v "(s @ ev1) @ [Print (Adding n)]"]
    obtain ev0 rest0 where a: "create_or_update_secret w repo token n v
                                  ((s @ ev1) @ [Print (Adding n)])
                          = (Inr b, ((s @ ev1) @ [Print (Adding n)]) @ ev0)"
      and e0: "entry_results ev0 = []"
      and k0: "ev0 = Net (public_key_request repo token) # rest0"
      unfolding b_def by blast
    define m where "m = Print (if b then Added_ok n else Added_failed n)"
    from secrets_loop_extends[of w repo token post 0 "[]"
        "(((s @ ev1) @ [Print (Adding n)]) @ ev0) @ [m]"]
    obtain ev2 where l2: "snd (secrets_loop w repo token post 0 []
                                 ((((s @ ev1) @ [Print (Adding n)]) @ ev0) @ [m]))
                          = ((((s @ ev1) @ [Print (Adding n)]) @ ev0) @ [m]) @ ev2"
      by blast
    have "snd (secrets_loop w repo token tokens 0 [] s) =
            snd (secrets_loop w repo token ((n, v) # post)
                   (length (filter snd rs1)) (map fst (filter (\<lambda>p. \<not> snd p) rs1)) (s @ ev1))"
      unfolding sp loop_split using l1 by simp
    also have "\<dots> = snd (secrets_loop w repo token post 0 []
                           ((((s @ ev1) @ [Print (Adding n)]) @ ev0) @ [m]))"
      unfolding m_def by (rule loop_step_trace[OF a])
    finally have "s @ ev = ((((s @ ev1) @ [Print (Adding n)]) @ ev0) @ [m]) @ ev2"
      using l l2 by simp
    then have ev: "ev = ev1 @ [Print (Adding n)] @ ev0 @ [m] @ ev2" by simp
    have "entry_results [m] = [(n, b)]" by (simp add: m_def)
    with entry_results_append[of "[m]" ev2]
    have em: "entry_results (m # ev2) = (n, b) # entry_results ev2" by simp
    have "rs = rs1 @ (n, b) # entry_results ev2"
      using r(1) r1(1) e0 em unfolding ev by (simp add: entry_results_append)
    moreover have "length rs1 = length pre" using r1(2) by (metis length_map)
    ultimately have nth: "rs ! length pre = (n, b)" by (simp add: nth_append)
    have tr: "s @ (ev @ tail) =
                (s @ ev1) @ Print (Adding n) # Net (public_key_request repo token)
                  # (rest0 @ [m] @ ev2 @ tail)"
      unfolding ev k0 by simp
    from l1 nth tr show ?thesis unfolding b_def by blast
  qed
  from run r tail tie show ?thesis
    apply (intro exI[of _ rs] exI[of _ "ev @ tail"])
    apply (simp add: entry_results_append gets_of_append)
    done
qed

lemma first_fetch_refused_run:
  "setup_secrets first_fetch_refused ''adm/hapus'' ''t1'' [(''PAT1'', ''t1''), (''PAT2'', ''t2'')] []
     = (Inr (1, [''PAT1'']),
        [Print (Adding ''PAT1''), Net (public_key_request ''adm/hapus'' ''t1''),
         Print (Key_fetch_failed 404), Print (Added_failed ''PAT1''),
         Print (Adding ''PAT2''), Net (public_key_request ''adm/hapus'' ''t1''),
         Net (secret_request ''adm/hapus'' ''t1'' ''PAT2'' ''sealed:t2'' (JStr ''568250167242549743'')),
         Print (Added_ok ''PAT2''), Print (Summary 1 2), Print (Failed_names [''PAT1''])])"
  by code_simp

text \<open>
  The first entry's key fetch is refused with 404: that entry alone is marked failed and
  the second entry is attempted and succeeds.
\<close>

theorem every_entry_attempted_witness:
  "(\<forall>s rq. respond first_fetch_refused s rq \<noteq> Transport_failure)
   \<and> (\<exists>rs ev. setup_secrets first_fetch_refused ''adm/hapus'' ''t1''
                  [(''PAT1'', ''t1''), (''PAT2'', ''t2'')] [] =
            (Inr (length (filter snd rs), map fst (filter (\<lambda>p. \<not> snd p) rs)), [] @ ev)
           \<and> entry_results ev = rs \<and> map fst rs = map fst [(''PAT1'', ''t1''), (''PAT2'', ''t2'')]
           \<and> gets_of ev = replicate (length [(''PAT1'', ''t1''), (''PAT2'', ''t2'')])
                             (public_key_request ''adm/hapus'' ''t1'')
           \<and> rs ! 0 = (''PAT1'', False) \<and> rs ! 1 = (''PAT2'', True))"
proof -
  have a: "\<forall>s rq. respond first_fetch_refused s rq \<noteq> Transport_failure"
    by (simp add: first_fetch_refused_def)
  have b: "\<forall>s r. respond first_fetch_refused s (public_key_request ''adm/hapus'' ''t1'') = Response r \<longrightarrow>
                 status_code r = 200 \<longrightarrow>
                 (\<exists>kd. content r = Json_body kd \<and>
                    (truthy kd \<longrightarrow> (\<exists>k kid. py_item kd ''key'' = Inr (JStr k)
                        \<and> py_item kd ''key_id'' = Inr kid
                        \<and> (\<forall>s' v. \<exists>c. sealed_box first_fetch_refused s' k v = Inr c))))"
    by (auto simp: first_fetch_refused_def reply_def key_json_def example_seal_def)
  from every_entry_attempted[OF a b, of "[(''PAT1'', ''t1''), (''PAT2'', ''t2'')]" "[]"]
  obtain rs ev where run: "setup_secrets first_fetch_refused ''adm/hapus'' ''t1''
                  [(''PAT1'', ''t1''), (''PAT2'', ''t2'')] [] =
            (Inr (length (filter snd rs), map fst (filter (\<lambda>p. \<not> snd p) rs)), [] @ ev)"
    and r: "entry_results ev = rs" "map fst rs = map fst [(''PAT1'', ''t1''), (''PAT2'', ''t2'')]"
      "gets_of ev = replicate (length [(''PAT1'', ''t1''), (''PAT2'', ''t2'')])
                             (public_key_request ''adm/hapus'' ''t1'')"
    and tie: "\<forall>pre n v post. [(''PAT1'', ''t1''), (''PAT2'', ''t2'')] = pre @ (n, v) # post \<longrightarrow>
                (\<exists>c f s1 rest.
                    secrets_loop first_fetch_refused ''adm/hapus'' ''t1'' pre 0 [] [] = (Inr (c, f), s1)
                  \<and> rs ! length pre =
                      (n, entry_succeeds first_fetch_refused ''adm/hapus'' ''t1'' n v
                            (s1 @ [Print (Adding n)]))
                  \<and> [] @ ev = s1 @ Print (Adding n)
                       # Net (public_key_request ''adm/hapus'' ''t1'') # rest)"
    by blast
  have p0: "secrets_loop first_fetch_refused ''adm/hapus'' ''t1'' [] 0 [] [] = (Inr (0, []), [])"
    by simp
  have e0: "entry_succeeds first_fetch_refused ''adm/hapus'' ''t1'' ''PAT1'' ''t1''
              ([] @ [Print (Adding ''PAT1'')]) = False"
    by code_simp
  have p1: "secrets_loop first_fetch_refused ''adm/hapus'' ''t1'' [(''PAT1'', ''t1'')] 0 [] [] =
              (Inr (0, [''PAT1'']),
               [Print (Adding ''PAT1''), Net (public_key_request ''adm/hapus'' ''t1''),
                Print (Key_fetch_failed 404), Print (Added_failed ''PAT1'')])"
    by code_simp
  have e1: "entry_succeeds first_fetch_refused ''adm/hapus'' ''t1'' ''PAT2'' ''t2''
              ([Print (Adding ''PAT1''), Net (public_key_request ''adm/hapus'' ''t1''),
                Print (Key_fetch_failed 404), Print (Added_failed ''PAT1'')]
               @ [Print (Adding ''PAT2'')]) = True"
    by code_simp
  from tie[rule_format, of "[]" "''PAT1''" "''t1''" "[(''PAT2'', ''t2'')]"] p0 e0
  have r0: "rs ! 0 = (''PAT1'', False)" by auto
  from tie[rule_format, of "[(''PAT1'', ''t1'')]" "''PAT2''" "''t2''" "[]"] p1 e1
  have r1: "rs ! 1 = (''PAT2'', True)" by auto
  from a run r r0 r1 show ?thesis by blast
qed

text \<open>
  The claim as written fails when the first entry's upsert fails in transport: the
  exception leaves the loop, the second entry is never attempted and gets no outcome.
\<close>

theorem upsert_offline_counterexample:
  "setup_secrets (fixed_world upsert_offline) ''adm/hapus'' ''t1''
       [(''PAT1'', ''t1''), (''PAT2'', ''t2'')] []
     = (Inl RequestException,
        [Print (Adding ''PAT1''), Net (public_key_request ''adm/hapus'' ''t1''),
         Net (secret_request ''adm/hapus'' ''t1'' ''PAT1'' ''sealed:t1'' (JStr ''568250167242549743''))])"
  by code_simp

section \<open>Transport failures\<close>

lemma scan_no_transport:
  "fst (scan_invitations w t u repo invs s) \<noteq> Inl RequestException"
proof (induction invs)
  case Nil
  show ?case by simp
next
  case (Cons i invs)
  have g: "py_get x k d \<noteq> Inl RequestException" for x k d
    by (cases x) (auto split: option.splits)
  show ?case using Cons g
    by (auto split: sum.splits prod.splits)
qed

lemma scan_no_transport_pair:
  "scan_invitations w t u repo invs s \<noteq> (Inl RequestException, s')"
  using scan_no_transport[of w t u repo invs s] by auto

lemma accept_member_no_transport:
  "fst (accept_member w repo u t s) \<noteq> Inl RequestException"
  by (auto simp: accept_member_def scan_no_transport_pair
      split: prod.splits json.splits sum.splits)

lemma accept_phase_no_transport:
  "fst (accept_phase w repo pairs s) \<noteq> Inl RequestException"
proof (induction pairs arbitrary: s)
  case Nil
  show ?case by simp
next
  case (Cons p pairs)
  obtain u t where p: "p = (u, t)" by (cases p)
  show ?case using Cons accept_member_no_transport[of w repo u t s] p
    by (auto split: prod.splits sum.splits)
qed

lemma call_transport_failure:
  assumes "respond w s (client_request token endpoint meth data) = Transport_failure"
  shows "call w token endpoint meth data s =
           (JNull, s @ [Net (client_request token endpoint meth data),
                        Print (Error_msg RequestException)])"
  using assms by (simp add: call_def send_def)

lemma fetch_transport_failure:
  assumes "respond w s (public_key_request repo token) = Transport_failure"
  shows "create_or_update_secret w repo token n v s =
           (Inl RequestException, s @ [Net (public_key_request repo token)])"
  using assms by (simp add: create_or_update_secret_def get_public_key_def send_def)

lemma entry_raises_ends_batch:
  assumes "secrets_loop w repo token pre 0 [] s = (Inr (c, f), s1)"
    and "fst (create_or_update_secret w repo token n v (s1 @ [Print (Adding n)])) = Inl e"
  shows "setup_secrets w repo token (pre @ (n, v) # rest) s =
           (Inl e, snd (create_or_update_secret w repo token n v (s1 @ [Print (Adding n)])))"
proof -
  obtain r s2 where a: "create_or_update_secret w repo token n v (s1 @ [Print (Adding n)]) = (r, s2)"
    by (cases "create_or_update_secret w repo token n v (s1 @ [Print (Adding n)])")
  with assms(2) have r: "r = Inl e" by simp
  have "secrets_loop w repo token (pre @ (n, v) # rest) 0 [] s = (Inl e, s2)"
    unfolding loop_split using assms(1) a r by simp
  with a show ?thesis by (simp add: setup_secrets_def)
qed

lemma handler_prints:
  assumes "getenv_default getenv ''PAT1'' [] \<noteq> []" "named_tokens getenv \<noteq> []"
    and "check_permissions w (getenv_default getenv ''PAT1'' []) [] = (Inr True, s1)"
    and "setup_secrets w
           (default_repo (getenv_default getenv ''ADMIN_USERNAME'' [])
              (getenv_default getenv ''TARGET_REPO'' []))
           (getenv_default getenv ''PAT1'' []) (named_tokens getenv) s1 = (Inl e, s2)"
  shows "secrets_main getenv w = (Done, s2 @ [Print (Error_msg e)])"
  using assms by (simp add: secrets_main_def Let_def)

text \<open>
  C3, as the code has it. In the collaborator bootstrap every request goes through
  \<open>GitHubClient.call\<close>: a transport failure there is caught, reported and turned into
  the absent value, and the bootstrap never ends with that exception. The secret
  provisioning script sends its requests directly: a transport failure of the public-key
  fetch or of the upsert is raised by \<open>create_or_update_secret\<close>; an exception raised
  for any entry of the batch, the entries before it having been processed, ends
  \<open>setup_secrets\<close> with that exception at that entry, the remaining entries left
  out; and the script's handler then prints the exception and the script ends.
\<close>

theorem transport_failures:
  "(respond w s (client_request token endpoint meth data) = Transport_failure \<longrightarrow>
      call w token endpoint meth data s =
        (JNull, s @ [Net (client_request token endpoint meth data),
                     Print (Error_msg RequestException)]))
   \<and> fst (setup_collaborators c w s) \<noteq> Inl RequestException
   \<and> (respond w s (public_key_request repo token) = Transport_failure \<longrightarrow>
        create_or_update_secret w repo token n v s =
          (Inl RequestException, s @ [Net (public_key_request repo token)]))
   \<and> (get_public_key w repo token s' = (Inr key_data, s1) \<and> truthy key_data
        \<and> py_item key_data ''key'' = Inr k \<and> encrypt_secret w s1 k v = Inr ev
        \<and> py_item key_data ''key_id'' = Inr kid
        \<and> respond w s1 (secret_request repo token n ev kid) = Transport_failure \<longrightarrow>
        create_or_update_secret w repo token n v s' =
          (Inl RequestException, s1 @ [Net (secret_request repo token n ev kid)]))
   \<and> (secrets_loop w repo token pre 0 [] s0 = (Inr (cnt, failed), s2)
        \<and> fst (create_or_update_secret w repo token n v (s2 @ [Print (Adding n)])) = Inl e \<longrightarrow>
        setup_secrets w repo token (pre @ (n, v) # rest) s0 =
          (Inl e, snd (create_or_update_secret w repo token n v (s2 @ [Print (Adding n)]))))
   \<and> (getenv_default getenv ''PAT1'' [] \<noteq> [] \<and> named_tokens getenv \<noteq> []
        \<and> check_permissions w (getenv_default getenv ''PAT1'' []) [] = (Inr True, s3)
        \<and> setup_secrets w
             (default_repo (getenv_default getenv ''ADMIN_USERNAME'' [])
                (getenv_default getenv ''TARGET_REPO'' []))
             (getenv_default getenv ''PAT1'' []) (named_tokens getenv) s3 = (Inl e', s4) \<longrightarrow>
        secrets_main getenv w = (Done, s4 @ [Print (Error_msg e')]))"
proof -
  have c: "fst (setup_collaborators c w s) \<noteq> Inl RequestException"
    using accept_phase_no_transport by (simp add: setup_collaborators_def split: list.splits)
  show ?thesis
    using c call_transport_failure[of w s token endpoint meth data]
      fetch_transport_failure[of w s repo token n v]
      upsert_raises[of w repo token s' key_data s1 k v ev kid n]
      entry_raises_ends_batch[of w repo token pre s0 cnt failed s2 n v e rest]
      handler_prints[of getenv w s3 e' s4]
    by blast
qed

lemma budget_first_entry:
  "secrets_loop three_requests_then_offline ''adm/hapus'' ''t1'' [(''PAT1'', ''t1'')] 0 [] [] =
     (Inr (1, []),
      [Print (Adding ''PAT1''), Net (public_key_request ''adm/hapus'' ''t1''),
       Net (secret_request ''adm/hapus'' ''t1'' ''PAT1'' ''sealed:t1''
              (JStr ''568250167242549743'')),
       Print (Added_ok ''PAT1'')])"
  by code_simp

lemma budget_second_entry:
  "create_or_update_secret three_requests_then_offline ''adm/hapus'' ''t1'' ''PAT2'' ''t2''
     ([Print (Adding ''PAT1''), Net (public_key_request ''adm/hapus'' ''t1''),
       Net (secret_request ''adm/hapus'' ''t1'' ''PAT1'' ''sealed:t1''
              (JStr ''568250167242549743'')),
       Print (Added_ok ''PAT1'')] @ [Print (Adding ''PAT2'')]) =
     (Inl RequestException,
      [Print (Adding ''PAT1''), Net (public_key_request ''adm/hapus'' ''t1''),
       Net (secret_request ''adm/hapus'' ''t1'' ''PAT1'' ''sealed:t1''
              (JStr ''568250167242549743'')),
       Print (Added_ok ''PAT1''), Print (Adding ''PAT2''),
       Net (public_key_request ''adm/hapus'' ''t1''),
       Net (secret_request ''adm/hapus'' ''t1'' ''PAT2'' ''sealed:t2''
              (JStr ''568250167242549743''))])"
  by code_simp

lemma budget_key_fetch:
  "get_public_key three_requests_then_offline ''adm/hapus'' ''t1''
     [Net (identity_request ''t1''), Net (identity_request ''t1'')] =
     (Inr key_json,
      [Net (identity_request ''t1''), Net (identity_request ''t1''),
       Net (public_key_request ''adm/hapus'' ''t1'')])"
  by code_simp

lemma budget_preflight:
  "check_permissions three_requests_then_offline (getenv_default two_tokens_env ''PAT1'' []) [] =
     (Inr True,
      [Net (identity_request ''t1''), Print (Token_scopes [''repo'', ''workflow'']),
       Print Permissions_ok])"
  by code_simp

lemma budget_batch:
  "setup_secrets three_requests_then_offline
     (default_repo (getenv_default two_tokens_env ''ADMIN_USERNAME'' [])
        (getenv_default two_tokens_env ''TARGET_REPO'' []))
     (getenv_default two_tokens_env ''PAT1'' []) (named_tokens two_tokens_env)
     [Net (identity_request ''t1''), Print (Token_scopes [''repo'', ''workflow'']),
      Print Permissions_ok] =
     (Inl RequestException,
      [Net (identity_request ''t1''), Print (Token_scopes [''repo'', ''workflow'']),
       Print Permissions_ok,
       Print (Adding ''PAT1''), Net (public_key_request ''adm/hapus'' ''t1''),
       Net (secret_request ''adm/hapus'' ''t1'' ''PAT1'' ''sealed:t1''
              (JStr ''568250167242549743'')),
       Print (Added_ok ''PAT1''), Print (Adding ''PAT2''),
       Net (public_key_request ''adm/hapus'' ''t1'')])"
  by code_simp

text \<open>
  The host answers three requests and is then out of reach. A call of the client after
  that returns the absent value; a key fetch after that, and an upsert as fourth
  request, raise; in a batch of three the first entry is processed, the second raises
  at its upsert and the third is left out; in the script the second entry raises at its
  key fetch and the handler prints the exception.
\<close>

theorem transport_failures_witness:
  "respond three_requests_then_offline spent (client_request ''t1'' ''/user'' ''GET'' JNull)
     = Transport_failure
   \<and> call three_requests_then_offline ''t1'' ''/user'' ''GET'' JNull spent =
        (JNull, spent @ [Net (client_request ''t1'' ''/user'' ''GET'' JNull),
                         Print (Error_msg RequestException)])
   \<and> fst (setup_collaborators (load_config two_tokens_env) three_requests_then_offline spent)
        \<noteq> Inl RequestException
   \<and> create_or_update_secret three_requests_then_offline ''adm/hapus'' ''t1'' ''PAT2'' ''t2'' spent =
        (Inl RequestException, spent @ [Net (public_key_request ''adm/hapus'' ''t1'')])
   \<and> create_or_update_secret three_requests_then_offline ''adm/hapus'' ''t1'' ''PAT2'' ''t2''
        [Net (identity_request ''t1''), Net (identity_request ''t1'')] =
        (Inl RequestException,
         [Net (identity_request ''t1''), Net (identity_request ''t1''),
          Net (public_key_request ''adm/hapus'' ''t1'')]
         @ [Net (secret_request ''adm/hapus'' ''t1'' ''PAT2'' ''sealed:t2''
                   (JStr ''568250167242549743''))])
   \<and> setup_secrets three_requests_then_offline ''adm/hapus'' ''t1''
        ([(''PAT1'', ''t1'')] @ (''PAT2'', ''t2'') # [(''PAT3'', ''t3'')]) [] =
        (Inl RequestException,
         [Print (Adding ''PAT1''), Net (public_key_request ''adm/hapus'' ''t1''),
          Net (secret_request ''adm/hapus'' ''t1'' ''PAT1'' ''sealed:t1''
                 (JStr ''568250167242549743'')),
          Print (Added_ok ''PAT1''), Print (Adding ''PAT2''),
          Net (public_key_request ''adm/hapus'' ''t1''),
          Net (secret_request ''adm/hapus'' ''t1'' ''PAT2'' ''sealed:t2''
                 (JStr ''568250167242549743''))])
   \<and> secrets_main two_tokens_env three_requests_then_offline =
        (Done,
         [Net (identity_request ''t1''), Print (Token_scopes [''repo'', ''workflow'']),
          Print Permissions_ok,
          Print (Adding ''PAT1''), Net (public_key_request ''adm/hapus'' ''t1''),
          Net (secret_request ''adm/hapus'' ''t1'' ''PAT1'' ''sealed:t1''
                 (JStr ''568250167242549743'')),
          Print (Added_ok ''PAT1''), Print (Adding ''PAT2''),
          Net (public_key_request ''adm/hapus'' ''t1'')]
         @ [Print (Error_msg RequestException)])"
proof -
  have h1: "respond three_requests_then_offline spent (client_request ''t1'' ''/user'' ''GET'' JNull)
              = Transport_failure"
    by (simp add: three_requests_then_offline_def spent_def)
  have h3: "respond three_requests_then_offline spent (public_key_request ''adm/hapus'' ''t1'')
              = Transport_failure"
    by (simp add: three_requests_then_offline_def spent_def)
  have h4: "truthy key_json" "py_item key_json ''key'' = Inr (JStr ''CQAAAAAAAAAAAAAAAAAAAAAAAAAAAAAAAAAAAAAAAAA='')"
    "py_item key_json ''key_id'' = Inr (JStr ''568250167242549743'')"
    "encrypt_secret three_requests_then_offline
       [Net (identity_request ''t1''), Net (identity_request ''t1''),
        Net (public_key_request ''adm/hapus'' ''t1'')] (JStr ''CQAAAAAAAAAAAAAAAAAAAAAAAAAAAAAAAAAAAAAAAAA='') ''t2'' = Inr ''sealed:t2''"
    "respond three_requests_then_offline
       [Net (identity_request ''t1''), Net (identity_request ''t1''),
        Net (public_key_request ''adm/hapus'' ''t1'')]
       (secret_request ''adm/hapus'' ''t1'' ''PAT2'' ''sealed:t2'' (JStr ''568250167242549743''))
     = Transport_failure"
    by (simp_all add: key_json_def encrypt_secret_def three_requests_then_offline_def
        example_seal_def)
  have h5: "fst (create_or_update_secret three_requests_then_offline ''adm/hapus'' ''t1''
                   ''PAT2'' ''t2''
                   ([Print (Adding ''PAT1''), Net (public_key_request ''adm/hapus'' ''t1''),
                     Net (secret_request ''adm/hapus'' ''t1'' ''PAT1'' ''sealed:t1''
                            (JStr ''568250167242549743'')),
                     Print (Added_ok ''PAT1'')] @ [Print (Adding ''PAT2'')]))
              = Inl RequestException"
    by (simp only: budget_second_entry fst_conv)
  have h6: "getenv_default two_tokens_env ''PAT1'' [] \<noteq> []" "named_tokens two_tokens_env \<noteq> []"
    by code_simp+
  note t = transport_failures[of three_requests_then_offline spent "''t1''" "''/user''" "''GET''"
      JNull "load_config two_tokens_env" "''adm/hapus''" "''PAT2''" "''t2''"
      "[Net (identity_request ''t1''), Net (identity_request ''t1'')]" key_json
      "[Net (identity_request ''t1''), Net (identity_request ''t1''),
        Net (public_key_request ''adm/hapus'' ''t1'')]"
      "JStr ''CQAAAAAAAAAAAAAAAAAAAAAAAAAAAAAAAAAAAAAAAAA=''" "''sealed:t2''"
      "JStr ''568250167242549743''" "[(''PAT1'', ''t1'')]" "[]" 1 "[]"
      "[Print (Adding ''PAT1''), Net (public_key_request ''adm/hapus'' ''t1''),
        Net (secret_request ''adm/hapus'' ''t1'' ''PAT1'' ''sealed:t1''
               (JStr ''568250167242549743'')),
        Print (Added_ok ''PAT1'')]"
      RequestException "[(''PAT3'', ''t3'')]" two_tokens_env
      "[Net (identity_request ''t1''), Print (Token_scopes [''repo'', ''workflow'']),
        Print Permissions_ok]"
      RequestException
      "[Net (identity_request ''t1''), Print (Token_scopes [''repo'', ''workflow'']),
        Print Permissions_ok,
        Print (Adding ''PAT1''), Net (public_key_request ''adm/hapus'' ''t1''),
        Net (secret_request ''adm/hapus'' ''t1'' ''PAT1'' ''sealed:t1''
               (JStr ''568250167242549743'')),
        Print (Added_ok ''PAT1''), Print (Adding ''PAT2''),
        Net (public_key_request ''adm/hapus'' ''t1'')]"]
  from t h1 h3 h4 h5 h6 budget_first_entry budget_second_entry budget_key_fetch
    budget_preflight budget_batch
  show ?thesis by (simp only: simp_thms snd_conv)
qed

text \<open>
  The claim as written fails in the secret provisioning script: the transport failure of
  the first key fetch reaches the handler at the end of the script, and the second entry
  is never attempted.
\<close>

theorem key_fetch_offline_counterexample:
  "secrets_main two_tokens_env (fixed_world offline_after_identity) =
     (Done,
      [Net (identity_request ''t1''), Print (Token_scopes [''repo'', ''workflow'']),
       Print Permissions_ok, Print (Adding ''PAT1''),
       Net (public_key_request ''adm/hapus'' ''t1''), Print (Error_msg RequestException)])"
  by code_simp

section \<open>The preflight as a gate\<close>

lemma setup_secrets_extends:
  "\<exists>ev. snd (setup_secrets w repo token tokens s) = s @ ev"
  using secrets_loop_extends[of w repo token tokens 0 "[]" s]
  by (auto simp: setup_secrets_def split: prod.splits sum.splits)

lemma check_permissions_trace:
  "\<exists>ev. snd (check_permissions w admin_token s) = s @ Net (identity_request admin_token) # ev
        \<and> requests_of ev = []"
  by (auto simp: check_permissions_def send_def Let_def split: outcome.splits)

lemma secrets_main_aborts:
  assumes "getenv_default getenv ''PAT1'' [] = [] \<or> named_tokens getenv = []
           \<or> fst (check_permissions w (getenv_default getenv ''PAT1'' []) []) = Inr False"
  shows "fst (secrets_main getenv w) = Exit 1
       \<and> requests_of (snd (secrets_main getenv w)) =
           (if getenv_default getenv ''PAT1'' [] = [] \<or> named_tokens getenv = [] then []
            else [identity_request (getenv_default getenv ''PAT1'' [])])"
proof (cases "getenv_default getenv ''PAT1'' [] = [] \<or> named_tokens getenv = []")
  case True
  then show ?thesis by (auto simp: secrets_main_def Let_def)
next
  case False
  with assms have f: "fst (check_permissions w (getenv_default getenv ''PAT1'' []) []) = Inr False"
    by blast
  obtain r s1 where c: "check_permissions w (getenv_default getenv ''PAT1'' []) [] = (r, s1)"
    by (cases "check_permissions w (getenv_default getenv ''PAT1'' []) []")
  from check_permissions_trace[of w "getenv_default getenv ''PAT1'' []" "[]"] c
  obtain ev where ev: "s1 = Net (identity_request (getenv_default getenv ''PAT1'' [])) # ev"
    "requests_of ev = []" by auto
  from f c have r: "r = Inr False" by simp
  show ?thesis using False c r ev
    by (simp add: secrets_main_def Let_def requests_of_append)
qed

lemma secrets_main_preflight_first:
  assumes "getenv_default getenv ''PAT1'' [] \<noteq> []" "named_tokens getenv \<noteq> []"
  shows "\<exists>rest. requests_of (snd (secrets_main getenv w)) =
            identity_request (getenv_default getenv ''PAT1'' []) # rest"
proof -
  let ?a = "getenv_default getenv ''PAT1'' []"
  let ?repo = "default_repo (getenv_default getenv ''ADMIN_USERNAME'' [])
                   (getenv_default getenv ''TARGET_REPO'' [])"
  obtain r s1 where c: "check_permissions w ?a [] = (r, s1)"
    by (cases "check_permissions w ?a []")
  from check_permissions_trace[of w ?a "[]"] c
  obtain ev where ev: "s1 = Net (identity_request ?a) # ev" by auto
  obtain r2 s2 where ss: "setup_secrets w ?repo ?a (named_tokens getenv) s1 = (r2, s2)"
    by (cases "setup_secrets w ?repo ?a (named_tokens getenv) s1")
  from setup_secrets_extends[of w ?repo ?a "named_tokens getenv" s1] ss
  obtain ev2 where s2: "s2 = s1 @ ev2" by auto
  show ?thesis using assms c ev ss s2
    by (auto simp: secrets_main_def Let_def requests_of_append split: sum.splits)
qed

text \<open>
  C2, as the code has it. In the secret provisioning script the run exits with status 1
  before any workflow request whenever no admin token or no token at all is configured
  (no request is sent) or the preflight returns false (the identity call is the only
  request); and whenever the configuration is present the identity call of the
  preflight is the first request of the run. The collaborator script has no preflight.
\<close>

theorem secrets_preflight_gates:
  "(getenv_default getenv ''PAT1'' [] = [] \<or> named_tokens getenv = []
      \<or> fst (check_permissions w (getenv_default getenv ''PAT1'' []) []) = Inr False \<longrightarrow>
      fst (secrets_main getenv w) = Exit 1
      \<and> requests_of (snd (secrets_main getenv w)) =
           (if getenv_default getenv ''PAT1'' [] = [] \<or> named_tokens getenv = [] then []
            else [identity_request (getenv_default getenv ''PAT1'' [])]))
   \<and> (getenv_default getenv ''PAT1'' [] \<noteq> [] \<and> named_tokens getenv \<noteq> [] \<longrightarrow>
        (\<exists>rest. requests_of (snd (secrets_main getenv w)) =
            identity_request (getenv_default getenv ''PAT1'' []) # rest))"
  using secrets_main_aborts[of getenv w] secrets_main_preflight_first[of getenv w] by blast

lemma two_tokens_env_pat1: "getenv_default two_tokens_env ''PAT1'' [] = ''t1''"
  by code_simp

lemma two_tokens_env_named: "named_tokens two_tokens_env = [(''PAT1'', ''t1''), (''PAT2'', ''t2'')]"
  by code_simp

lemma no_scopes_preflight: "fst (check_permissions (fixed_world no_scopes_host) ''t1'' []) = Inr False"
  by code_simp

theorem secrets_preflight_gates_witness:
  "fst (check_permissions (fixed_world no_scopes_host)
          (getenv_default two_tokens_env ''PAT1'' []) []) = Inr False
   \<and> fst (secrets_main two_tokens_env (fixed_world no_scopes_host)) = Exit 1
   \<and> requests_of (snd (secrets_main two_tokens_env (fixed_world no_scopes_host)))
       = [identity_request ''t1'']"
  using secrets_preflight_gates[of two_tokens_env "fixed_world no_scopes_host"]
  by (simp add: two_tokens_env_pat1 two_tokens_env_named no_scopes_preflight)

text \<open>
  The claim as written fails for the collaborator bootstrap: with an admin token for
  which the preflight returns false, the script still sends its invitation and looks
  for invitations; no identity call is made.
\<close>

theorem collaborators_no_preflight_counterexample:
  "fst (check_permissions (fixed_world no_scopes_host) ''t1'' []) = Inr False
   \<and> collaborators_main two_tokens_env (fixed_world no_scopes_host) =
       (Inr (),
        [Net (client_request ''t1'' ''/repos/adm/hapus/collaborators/bob'' ''PUT''
                (JObj [(''permission'', JStr ''push'')])),
         Print (Invitation_sent ''bob''), Sleep 800, Sleep 5000,
         Net (client_request ''t2'' ''/user/repository_invitations'' ''GET'' JNull),
         Print (No_invitations_found ''bob'')])"
  by code_simp

section \<open>The two phases of the collaborator bootstrap\<close>

lemma call_trace:
  "\<exists>ev. snd (call w t ep m d s) = s @ Net (client_request t ep m d) # ev \<and> requests_of ev = []"
  by (auto simp: call_def send_def split: outcome.splits sum.splits)

lemma call_requests:
  "requests_of (snd (call w t ep m d s)) = requests_of s @ [client_request t ep m d]"
  using call_trace[of w t ep m d s] by (auto simp: requests_of_append)

lemma call_requests_pair:
  "call w t ep m d s = (r, s1) \<Longrightarrow> requests_of s1 = requests_of s @ [client_request t ep m d]"
  using call_requests[of w t ep m d s] by simp

lemma invite_phase_trace:
  "\<exists>inv. invite_phase w admin repo us s = s @ inv
     \<and> requests_of inv = map (invite_request admin repo) (filter (\<lambda>u. u \<noteq> []) us)"
proof (induction us arbitrary: s)
  case Nil
  show ?case by simp
next
  case (Cons u us)
  show ?case
  proof (cases "u = []")
    case True
    with Cons.IH[of s] show ?thesis by simp
  next
    case False
    obtain r s1 where c: "call w admin (''/repos/'' @ repo @ ''/collaborators/'' @ u) ''PUT''
                (JObj [(''permission'', JStr ''push'')]) s = (r, s1)"
      by (cases "call w admin (''/repos/'' @ repo @ ''/collaborators/'' @ u) ''PUT''
                (JObj [(''permission'', JStr ''push'')]) s")
    from call_trace[of w admin "''/repos/'' @ repo @ ''/collaborators/'' @ u" "''PUT''"
        "JObj [(''permission'', JStr ''push'')]" s] c
    obtain ev where ev: "s1 = s @ Net (invite_request admin repo u) # ev" "requests_of ev = []"
      by (auto simp: invite_request_def)
    let ?s2 = "s1 @ [Print (if r \<noteq> JNull then Invitation_sent u else Failed_to_invite u), Sleep 800]"
    from Cons.IH[of ?s2] obtain inv where
      inv: "invite_phase w admin repo us ?s2 = ?s2 @ inv"
        "requests_of inv = map (invite_request admin repo) (filter (\<lambda>u. u \<noteq> []) us)"
      by blast
    show ?thesis
      apply (rule exI[of _ "Net (invite_request admin repo u) # ev
               @ [Print (if r \<noteq> JNull then Invitation_sent u else Failed_to_invite u), Sleep 800]
               @ inv"])
      using False c ev inv by (simp add: requests_of_append)
  qed
qed

lemma scan_find:
  assumes "\<forall>i\<in>set invs. is_invitation i"
  shows "scan_invitations w t u repo invs s =
     (case find (\<lambda>i. repository_full_name i = JStr repo) invs of
        None \<Rightarrow> (Inr False, s)
      | Some i \<Rightarrow>
          (case call w t (''/user/repository_invitations/'' @ fmt w (invitation_id i))
                  ''PATCH'' JNull s of
             (result, s1) \<Rightarrow>
               if result \<noteq> JNull then (Inr True, s1 @ [Print (Accepted_invitation u)])
               else (Inr False, s1 @ [Print (Failed_to_accept u)])))"
  using assms
proof (induction invs)
  case Nil
  show ?case by simp
next
  case (Cons i invs)
  then have wf: "is_invitation i" and rest: "\<forall>i\<in>set invs. is_invitation i" by auto
  from wf obtain kvs where i: "i = JObj kvs"
    by (cases i) (auto simp: is_invitation_def)
  show ?case using Cons.IH[OF rest] wf i
    by (auto simp: is_invitation_def repository_full_name_def invitation_id_def
        split: sum.splits option.splits prod.splits)
qed

lemma accept_events_simps [simp]:
  "accept_events []"
  "accept_events (a @ b) \<longleftrightarrow> accept_events a \<and> accept_events b"
  "accept_events (Print m # a) \<longleftrightarrow> accept_events a"
  "accept_events (Sleep k # a) \<longleftrightarrow> k \<noteq> 5000 \<and> accept_events a"
  "accept_events (Net rq # a) \<longleftrightarrow> (verb rq = GET \<or> verb rq = PATCH) \<and> accept_events a"
  by (auto simp: accept_events_def requests_of_append)

lemma call_acceptE:
  assumes "call w t ep m d s = (r, s1)" "m = ''GET'' \<or> m = ''PATCH''"
  obtains ev where "s1 = s @ ev" "accept_events ev"
proof -
  from call_trace[of w t ep m d s] assms(1)
  obtain ev where ev: "s1 = s @ Net (client_request t ep m d) # ev" "requests_of ev = []"
    by auto
  have v: "verb (client_request t ep m d) = GET \<or> verb (client_request t ep m d) = PATCH"
    using assms(2) by (auto simp: client_request_def)
  have "Sleep 5000 \<notin> set ev"
    using assms(1) ev(1) by (auto simp: call_def send_def split: outcome.splits sum.splits if_splits)
  with ev v have "accept_events (Net (client_request t ep m d) # ev)"
    by (simp add: accept_events_def)
  with ev(1) that show thesis by simp
qed

lemma scan_trace:
  "\<exists>ev. snd (scan_invitations w t u repo invs s) = s @ ev \<and> accept_events ev"
proof (induction invs)
  case Nil
  show ?case by simp
next
  case (Cons i invs)
  show ?case
  proof (cases "py_get i ''repository'' (JObj [])")
    case (Inl e)
    then show ?thesis by simp
  next
    case r: (Inr r)
    show ?thesis
    proof (cases "py_get r ''full_name'' JNull")
      case (Inl e)
      with r show ?thesis by simp
    next
      case n: (Inr n)
      show ?thesis
      proof (cases "n = JStr repo")
        case False
        with r n Cons show ?thesis by simp
      next
        case True
        show ?thesis
        proof (cases "py_get i ''id'' JNull")
          case (Inl e)
          with r n True show ?thesis by simp
        next
          case d: (Inr d)
          obtain res s1 where c: "call w t (''/user/repository_invitations/'' @ fmt w d)
                              ''PATCH'' JNull s = (res, s1)"
            by (cases "call w t (''/user/repository_invitations/'' @ fmt w d) ''PATCH'' JNull s")
          then obtain ev where ev: "s1 = s @ ev" "accept_events ev"
            by (rule call_acceptE) simp
          show ?thesis using r n True d c ev by simp
        qed
      qed
    qed
  qed
qed

lemma accept_member_trace:
  "\<exists>ev. snd (accept_member w repo u t s) = s @ ev \<and> accept_events ev"
proof -
  obtain r s1 where c: "call w t ''/user/repository_invitations'' ''GET'' JNull s = (r, s1)"
    by (cases "call w t ''/user/repository_invitations'' ''GET'' JNull s")
  then obtain ev where ev: "s1 = s @ ev" "accept_events ev"
    by (rule call_acceptE) simp
  show ?thesis
  proof (cases "\<not> truthy r \<or> \<not> is_list r")
    case True
    with c ev show ?thesis by (simp add: accept_member_def)
  next
    case False
    then obtain invs where r: "r = JArr invs" by (cases r) auto
    obtain r2 s2 where sc: "scan_invitations w t u repo invs s1 = (r2, s2)"
      by (cases "scan_invitations w t u repo invs s1")
    with scan_trace[of w t u repo invs s1] obtain ev2 where ev2: "s2 = s1 @ ev2" "accept_events ev2"
      by auto
    show ?thesis
    proof (cases r2)
      case (Inl e)
      with False c r sc ev ev2 show ?thesis by (simp add: accept_member_def)
    next
      case (Inr b)
      with False c r sc ev ev2 show ?thesis by (simp add: accept_member_def)
    qed
  qed
qed

lemma accept_phase_trace:
  "\<exists>ev. snd (accept_phase w repo pairs s) = s @ ev \<and> accept_events ev"
proof (induction pairs arbitrary: s)
  case Nil
  show ?case by simp
next
  case (Cons p pairs)
  obtain u t where p: "p = (u, t)" by (cases p)
  show ?case
  proof (cases "u = [] \<or> t = []")
    case True
    with p Cons.IH[of s] show ?thesis by simp
  next
    case False
    obtain r s1 where m: "accept_member w repo u t s = (r, s1)"
      by (cases "accept_member w repo u t s")
    with accept_member_trace[of w repo u t s] obtain ev where ev: "s1 = s @ ev" "accept_events ev"
      by auto
    show ?thesis
    proof (cases r)
      case (Inl e)
      with False p m ev show ?thesis by simp
    next
      case (Inr x)
      from Cons.IH[of s1] obtain ev2 where ev2: "snd (accept_phase w repo pairs s1) = s1 @ ev2"
        "accept_events ev2" by blast
      have "snd (accept_phase w repo (p # pairs) s) = s @ (ev @ ev2)"
        using False p m Inr ev ev2 by simp
      moreover have "accept_events (ev @ ev2)" using ev ev2 by simp
      ultimately show ?thesis by blast
    qed
  qed
qed

text \<open>
  C7. In every run of the collaborator bootstrap that has an admin token, the trace is
  the invite phase, then the settling wait of 5 seconds, then the accept phase: the
  requests before the wait are exactly the invite PUTs, one for each member username in
  order, all with the admin token; every request after the wait is a GET or a PATCH, so
  no accept-phase call precedes an invite-phase call; and the settling wait occurs once,
  between the two.
\<close>

theorem phases_in_order:
  assumes "TOKENS c = admin # ts"
  shows "\<exists>inv acc. snd (setup_collaborators c w s) = s @ inv @ [Sleep 5000] @ acc
           \<and> requests_of inv =
               map (invite_request admin (TARGET_REPO c)) (filter (\<lambda>u. u \<noteq> []) (drop 1 (USERS c)))
           \<and> (\<forall>rq\<in>set (requests_of inv). verb rq = PUT \<and> auth rq = admin)
           \<and> (\<forall>rq\<in>set (requests_of acc). verb rq = GET \<or> verb rq = PATCH)
           \<and> Sleep 5000 \<notin> set acc"
proof -
  from invite_phase_trace[of w admin "TARGET_REPO c" "drop 1 (USERS c)" s]
  obtain inv where inv: "invite_phase w admin (TARGET_REPO c) (drop 1 (USERS c)) s = s @ inv"
    "requests_of inv =
       map (invite_request admin (TARGET_REPO c)) (filter (\<lambda>u. u \<noteq> []) (drop 1 (USERS c)))"
    by blast
  from accept_phase_trace[of w "TARGET_REPO c" "zip (drop 1 (USERS c)) (drop 1 (TOKENS c))"
      "(s @ inv) @ [Sleep 5000]"]
  obtain acc where acc: "snd (accept_phase w (TARGET_REPO c)
        (zip (drop 1 (USERS c)) (drop 1 (TOKENS c))) ((s @ inv) @ [Sleep 5000]))
        = ((s @ inv) @ [Sleep 5000]) @ acc" "accept_events acc"
    by blast
  have put: "\<forall>rq\<in>set (requests_of inv). verb rq = PUT \<and> auth rq = admin"
    unfolding inv(2) by (auto simp: invite_request_def client_request_def)
  have run: "snd (setup_collaborators c w s) = s @ inv @ [Sleep 5000] @ acc"
    using assms inv(1) acc(1) by (simp add: setup_collaborators_def)
  from acc(2) have a: "(\<forall>rq\<in>set (requests_of acc). verb rq = GET \<or> verb rq = PATCH)"
    "Sleep 5000 \<notin> set acc" by (simp_all add: accept_events_def)
  from run inv(2) put a show ?thesis by blast
qed

lemma call_list_response:
  assumes "call w t ep ''GET'' JNull s = (JArr invs, s1)"
  shows "\<exists>r. respond w s (client_request t ep ''GET'' JNull) = Response r
             \<and> content r = Json_body (JArr invs)"
proof (cases "respond w s (client_request t ep ''GET'' JNull)")
  case Transport_failure
  with assms show ?thesis by (simp add: call_def send_def)
next
  case (Response r)
  with assms show ?thesis
    by (cases "content r")
       (auto simp: call_def send_def resp_json_def split: if_splits)
qed

lemma scan_gets:
  "\<exists>ev. snd (scan_invitations w t u repo invs s) = s @ ev \<and> gets_of ev = []"
proof (induction invs)
  case Nil
  show ?case by simp
next
  case (Cons i invs)
  show ?case
  proof (cases "py_get i ''repository'' (JObj [])")
    case (Inl e)
    then show ?thesis by simp
  next
    case r: (Inr r)
    show ?thesis
    proof (cases "py_get r ''full_name'' JNull")
      case (Inl e)
      with r show ?thesis by simp
    next
      case n: (Inr n)
      show ?thesis
      proof (cases "n = JStr repo")
        case False
        with r n Cons show ?thesis by simp
      next
        case True
        show ?thesis
        proof (cases "py_get i ''id'' JNull")
          case (Inl e)
          with r n True show ?thesis by simp
        next
          case d: (Inr d)
          obtain res s1 where c: "call w t (''/user/repository_invitations/'' @ fmt w d)
                              ''PATCH'' JNull s = (res, s1)"
            by (cases "call w t (''/user/repository_invitations/'' @ fmt w d) ''PATCH'' JNull s")
          from call_trace[of w t "''/user/repository_invitations/'' @ fmt w d" "''PATCH''" JNull s] c
          obtain ev where ev: "s1 = s @ Net (client_request t
                 (''/user/repository_invitations/'' @ fmt w d) ''PATCH'' JNull) # ev"
            "requests_of ev = []" by auto
          have v: "verb (client_request t (''/user/repository_invitations/'' @ fmt w d)
                     ''PATCH'' JNull) = PATCH"
            by (simp add: client_request_def)
          have g: "gets_of ev = []" using ev(2) by (simp add: gets_of_def)
          show ?thesis using r n True d c ev(1) g v by (simp add: gets_of_append)
        qed
      qed
    qed
  qed
qed

lemma accept_member_gets:
  "\<exists>ev. snd (accept_member w repo u t s) = s @ ev \<and> gets_of ev = [fetch_request t]"
proof -
  obtain r s1 where c: "call w t ''/user/repository_invitations'' ''GET'' JNull s = (r, s1)"
    by (cases "call w t ''/user/repository_invitations'' ''GET'' JNull s")
  from call_trace[of w t "''/user/repository_invitations''" "''GET''" JNull s] c
  obtain ev where ev: "s1 = s @ Net (fetch_request t) # ev" "requests_of ev = []"
    by (auto simp: fetch_request_def)
  have v: "verb (fetch_request t) = GET" by (simp add: fetch_request_def client_request_def)
  have g: "gets_of ev = []" using ev(2) by (simp add: gets_of_def)
  show ?thesis
  proof (cases "\<not> truthy r \<or> \<not> is_list r")
    case True
    with c ev(1) g v show ?thesis by (simp add: accept_member_def gets_of_append)
  next
    case False
    then obtain invs where r: "r = JArr invs" by (cases r) auto
    obtain r2 s2 where sc: "scan_invitations w t u repo invs s1 = (r2, s2)"
      by (cases "scan_invitations w t u repo invs s1")
    with scan_gets[of w t u repo invs s1] obtain ev2 where ev2: "s2 = s1 @ ev2" "gets_of ev2 = []"
      by auto
    show ?thesis
    proof (cases r2)
      case (Inl e)
      with False c r sc ev(1) ev2 g v show ?thesis
        by (simp add: accept_member_def gets_of_append)
    next
      case (Inr b)
      with False c r sc ev(1) ev2 g v show ?thesis
        by (simp add: accept_member_def gets_of_append)
    qed
  qed
qed

lemma accept_member_ok:
  assumes wf: "\<forall>s t r invs. respond w s (fetch_request t) = Response r
                       \<and> content r = Json_body (JArr invs) \<longrightarrow>
                     (\<forall>i\<in>set invs. is_invitation i)"
  shows "fst (accept_member w repo u t s) = Inr ()"
proof -
  obtain r s1 where c: "call w t ''/user/repository_invitations'' ''GET'' JNull s = (r, s1)"
    by (cases "call w t ''/user/repository_invitations'' ''GET'' JNull s")
  show ?thesis
  proof (cases "\<not> truthy r \<or> \<not> is_list r")
    case True
    with c show ?thesis by (simp add: accept_member_def)
  next
    case False
    then obtain invs where r: "r = JArr invs" by (cases r) auto
    from call_list_response[OF c[unfolded r]] wf
    have shaped: "\<forall>i\<in>set invs. is_invitation i"
      unfolding fetch_request_def by blast
    obtain res s2 where sc: "scan_invitations w t u repo invs s1 = (res, s2)"
      by (cases "scan_invitations w t u repo invs s1")
    have "\<exists>b. res = Inr b"
      using scan_find[OF shaped, of w t u repo s1] sc
      by (auto split: option.splits prod.splits if_splits)
    then obtain b where "res = Inr b" by blast
    with False c r sc show ?thesis by (simp add: accept_member_def)
  qed
qed

lemma accept_phase_split:
  "accept_phase w repo (pre @ post) s =
     (case accept_phase w repo pre s of
        (Inl e, s1) \<Rightarrow> (Inl e, s1)
      | (Inr x, s1) \<Rightarrow> accept_phase w repo post s1)"
proof (induction pre arbitrary: s)
  case Nil
  show ?case by simp
next
  case (Cons p pre)
  obtain u t where p: "p = (u, t)" by (cases p)
  obtain r s1 where m: "accept_member w repo u t s = (r, s1)"
    by (cases "accept_member w repo u t s")
  show ?case using p m Cons.IH by (cases r) auto
qed

lemma accept_phase_all:
  assumes wf: "\<forall>s t r invs. respond w s (fetch_request t) = Response r
                       \<and> content r = Json_body (JArr invs) \<longrightarrow>
                     (\<forall>i\<in>set invs. is_invitation i)"
  shows "\<exists>ev. accept_phase w repo pairs s = (Inr (), s @ ev)
           \<and> gets_of ev = map (\<lambda>p. fetch_request (snd p))
                              (filter (\<lambda>p. fst p \<noteq> [] \<and> snd p \<noteq> []) pairs)"
proof (induction pairs arbitrary: s)
  case Nil
  show ?case by simp
next
  case (Cons p pairs)
  obtain u t where p: "p = (u, t)" by (cases p)
  show ?case
  proof (cases "u = [] \<or> t = []")
    case True
    with p Cons.IH[of s] show ?thesis by auto
  next
    case False
    obtain r s1 where m: "accept_member w repo u t s = (r, s1)"
      by (cases "accept_member w repo u t s")
    with accept_member_ok[OF wf, of repo u t s] have r: "r = Inr ()" by simp
    from accept_member_gets[of w repo u t s] m
    obtain ev1 where ev1: "s1 = s @ ev1" "gets_of ev1 = [fetch_request t]" by auto
    from Cons.IH[of s1] obtain ev2 where ev2: "accept_phase w repo pairs s1 = (Inr (), s1 @ ev2)"
      "gets_of ev2 = map (\<lambda>p. fetch_request (snd p))
                       (filter (\<lambda>p. fst p \<noteq> [] \<and> snd p \<noteq> []) pairs)"
      by blast
    have "accept_phase w repo (p # pairs) s = (Inr (), s @ (ev1 @ ev2))"
      using False p m r ev1(1) ev2(1) by simp
    moreover have "gets_of (ev1 @ ev2) = map (\<lambda>p. fetch_request (snd p))
                       (filter (\<lambda>p. fst p \<noteq> [] \<and> snd p \<noteq> []) (p # pairs))"
      using False p ev1(2) ev2(2) by (simp add: gets_of_append)
    ultimately show ?thesis by blast
  qed
qed

lemma accept_phase_member:
  assumes wf: "\<forall>s t r invs. respond w s (fetch_request t) = Response r
                       \<and> content r = Json_body (JArr invs) \<longrightarrow>
                     (\<forall>i\<in>set invs. is_invitation i)"
    and sp: "pairs = pre @ (u, t) # post" and ne: "u \<noteq> []" "t \<noteq> []"
  shows "\<exists>s2 rest. accept_phase w repo pre st = (Inr (), s2)
           \<and> snd (accept_phase w repo pairs st) = snd (accept_member w repo u t s2) @ rest"
proof -
  from accept_phase_all[OF wf, of repo pre st]
  obtain ev1 where l1: "accept_phase w repo pre st = (Inr (), st @ ev1)" by blast
  obtain r sm where m: "accept_member w repo u t (st @ ev1) = (r, sm)"
    by (cases "accept_member w repo u t (st @ ev1)")
  with accept_member_ok[OF wf, of repo u t "st @ ev1"] have r: "r = Inr ()" by simp
  from accept_phase_all[OF wf, of repo post sm]
  obtain ev2 where l2: "accept_phase w repo post sm = (Inr (), sm @ ev2)" by blast
  have "accept_phase w repo pairs st = (Inr (), sm @ ev2)"
    unfolding sp accept_phase_split using l1 m r ne l2 by simp
  with l1 m show ?thesis by simp
qed

text \<open>
  C8, as the code has it. For a member of the accept phase, the list is fetched with one
  GET under the member's token. When the result is absent, empty or not a list, the
  member is reported as having no invitations and nothing else is sent. When it is a
  non-empty list whose entries are mappings, each with a mapping as repository if it has
  one: if no entry has the target repository's full name, the member is reported as
  having no invitation for the repository and nothing else is sent; otherwise exactly
  one PATCH is sent, under the same token, for the identifier of the first such entry,
  and the member is reported accepted when the PATCH returns a value and failed (and
  without invitation) when it returns the absent value. When the host returns only lists
  of such entries, the phase completes for every list of members, it sends exactly one
  fetch for each member that is not skipped, in order, and each such member is processed
  from the trace left by the members before it: no member is fetched twice.
\<close>

theorem accept_member_once:
  assumes fetch: "call w t ''/user/repository_invitations'' ''GET'' JNull s = (invitations, s1)"
  shows "requests_of s1 = requests_of s @ [fetch_request t]
     \<and> (\<not> truthy invitations \<or> \<not> is_list invitations \<longrightarrow>
          accept_member w repo u t s = (Inr (), s1 @ [Print (No_invitations_found u)]))
     \<and> (\<forall>invs. invitations = JArr invs \<and> invs \<noteq> [] \<and> (\<forall>i\<in>set invs. is_invitation i) \<longrightarrow>
          (case find (\<lambda>i. repository_full_name i = JStr repo) invs of
             None \<Rightarrow>
               accept_member w repo u t s = (Inr (), s1 @ [Print (No_invitation_for u), Sleep 800])
           | Some i \<Rightarrow>
               (case call w t (''/user/repository_invitations/'' @ fmt w (invitation_id i))
                       ''PATCH'' JNull s1 of
                  (result, s2) \<Rightarrow>
                    requests_of s2 = requests_of s1 @ [accept_request w t i]
                    \<and> accept_member w repo u t s =
                        (Inr (),
                         s2 @ (if result \<noteq> JNull then [Print (Accepted_invitation u)]
                               else [Print (Failed_to_accept u), Print (No_invitation_for u)])
                            @ [Sleep 800]))))
     \<and> ((\<forall>s t r invs. respond w s (fetch_request t) = Response r
                       \<and> content r = Json_body (JArr invs) \<longrightarrow>
                     (\<forall>i\<in>set invs. is_invitation i)) \<longrightarrow>
          (\<exists>ev. accept_phase w repo pairs st = (Inr (), st @ ev)
             \<and> gets_of ev = map (\<lambda>p. fetch_request (snd p))
                                (filter (\<lambda>p. fst p \<noteq> [] \<and> snd p \<noteq> []) pairs)
             \<and> (\<forall>pre u' t' post. pairs = pre @ (u', t') # post \<and> u' \<noteq> [] \<and> t' \<noteq> [] \<longrightarrow>
                  (\<exists>s2 rest. accept_phase w repo pre st = (Inr (), s2)
                     \<and> st @ ev = snd (accept_member w repo u' t' s2) @ rest))))"
proof -
  have a: "requests_of s1 = requests_of s @ [fetch_request t]"
    using call_requests_pair[OF fetch] by (simp add: fetch_request_def)
  have b: "\<not> truthy invitations \<or> \<not> is_list invitations \<longrightarrow>
          accept_member w repo u t s = (Inr (), s1 @ [Print (No_invitations_found u)])"
    using fetch by (simp add: accept_member_def)
  have c: "(case find (\<lambda>i. repository_full_name i = JStr repo) invs of
             None \<Rightarrow>
               accept_member w repo u t s = (Inr (), s1 @ [Print (No_invitation_for u), Sleep 800])
           | Some i \<Rightarrow>
               (case call w t (''/user/repository_invitations/'' @ fmt w (invitation_id i))
                       ''PATCH'' JNull s1 of
                  (result, s2) \<Rightarrow>
                    requests_of s2 = requests_of s1 @ [accept_request w t i]
                    \<and> accept_member w repo u t s =
                        (Inr (),
                         s2 @ (if result \<noteq> JNull then [Print (Accepted_invitation u)]
                               else [Print (Failed_to_accept u), Print (No_invitation_for u)])
                            @ [Sleep 800])))"
    if inv: "invitations = JArr invs" "invs \<noteq> []" "\<forall>i\<in>set invs. is_invitation i" for invs
  proof (cases "find (\<lambda>i. repository_full_name i = JStr repo) invs")
    case None
    with fetch inv scan_find[OF inv(3), of w t u repo s1] show ?thesis
      by (simp add: accept_member_def)
  next
    case (Some i)
    obtain result s2 where p: "call w t (''/user/repository_invitations/'' @ fmt w (invitation_id i))
                       ''PATCH'' JNull s1 = (result, s2)"
      by (cases "call w t (''/user/repository_invitations/'' @ fmt w (invitation_id i))
                       ''PATCH'' JNull s1")
    have rq: "requests_of s2 = requests_of s1 @ [accept_request w t i]"
      using call_requests_pair[OF p] by (simp add: accept_request_def)
    show ?thesis using fetch inv Some p rq scan_find[OF inv(3), of w t u repo s1]
      by (simp add: accept_member_def)
  qed
  have d: "\<exists>ev. accept_phase w repo pairs st = (Inr (), st @ ev)
             \<and> gets_of ev = map (\<lambda>p. fetch_request (snd p))
                                (filter (\<lambda>p. fst p \<noteq> [] \<and> snd p \<noteq> []) pairs)
             \<and> (\<forall>pre u' t' post. pairs = pre @ (u', t') # post \<and> u' \<noteq> [] \<and> t' \<noteq> [] \<longrightarrow>
                  (\<exists>s2 rest. accept_phase w repo pre st = (Inr (), s2)
                     \<and> st @ ev = snd (accept_member w repo u' t' s2) @ rest))"
    if wf: "\<forall>s t r invs. respond w s (fetch_request t) = Response r
                       \<and> content r = Json_body (JArr invs) \<longrightarrow>
                     (\<forall>i\<in>set invs. is_invitation i)"
  proof -
    from accept_phase_all[OF wf, of repo pairs st]
    obtain ev where ev: "accept_phase w repo pairs st = (Inr (), st @ ev)"
      "gets_of ev = map (\<lambda>p. fetch_request (snd p))
                        (filter (\<lambda>p. fst p \<noteq> [] \<and> snd p \<noteq> []) pairs)"
      by blast
    have "\<exists>s2 rest. accept_phase w repo pre st = (Inr (), s2)
                     \<and> st @ ev = snd (accept_member w repo u' t' s2) @ rest"
      if "pairs = pre @ (u', t') # post \<and> u' \<noteq> [] \<and> t' \<noteq> []" for pre u' t' post
      using accept_phase_member[OF wf, of pairs pre u' t' post repo st] that ev(1) by simp
    with ev show ?thesis by blast
  qed
  from a b c d show ?thesis by blast
qed

lemma two_tokens_config:
  "load_config two_tokens_env =
     \<lparr>ADMIN_USERNAME = ''adm'', TARGET_REPO = ''adm/hapus'', TOKENS = [''t1'', ''t2''],
      USERS = [''adm'', ''bob'']\<rparr>"
  by code_simp

theorem phases_in_order_witness:
  "TOKENS (load_config two_tokens_env) = ''t1'' # [''t2'']
   \<and> (\<exists>inv acc. snd (setup_collaborators (load_config two_tokens_env)
                       (fixed_world invitations_host) []) = [] @ inv @ [Sleep 5000] @ acc
           \<and> requests_of inv = [invite_request ''t1'' ''adm/hapus'' ''bob'']
           \<and> Sleep 5000 \<notin> set acc)"
  using phases_in_order[of "load_config two_tokens_env" "''t1''" "[''t2'']"
      "fixed_world invitations_host" "[]"]
  by (auto simp: two_tokens_config)

lemma two_members_run:
  "collaborators_main two_tokens_env (fixed_world invitations_host) =
     (Inr (),
      [Net (invite_request ''t1'' ''adm/hapus'' ''bob''), Print (Invitation_sent ''bob''),
       Sleep 800, Sleep 5000,
       Net (fetch_request ''t2''),
       Net (client_request ''t2'' ''/user/repository_invitations/42'' ''PATCH'' JNull),
       Print (Accepted_invitation ''bob''), Sleep 800])"
  by code_simp

theorem accept_member_once_witness:
  "call (fixed_world invitations_host) ''t2'' ''/user/repository_invitations'' ''GET'' JNull []
     = (invitation_list, [Net (fetch_request ''t2'')])
   \<and> is_invitation
         (JObj [(''id'', JNum 7), (''repository'', JObj [(''full_name'', JStr ''other/repo'')])])
   \<and> is_invitation
         (JObj [(''id'', JNum 42), (''repository'', JObj [(''full_name'', JStr ''adm/hapus'')])])
   \<and> accept_member (fixed_world invitations_host) ''adm/hapus'' ''bob'' ''t2'' [] =
       (Inr (),
        [Net (fetch_request ''t2''),
         Net (client_request ''t2'' ''/user/repository_invitations/42'' ''PATCH'' JNull),
         Print (Accepted_invitation ''bob''), Sleep 800])
   \<and> (\<exists>ev. accept_phase (fixed_world invitations_host) ''adm/hapus''
               [(''bob'', ''t2''), (''carol'', ''t3'')] [] = (Inr (), [] @ ev)
          \<and> gets_of ev = [fetch_request ''t2'', fetch_request ''t3''])"
proof -
  have f: "call (fixed_world invitations_host) ''t2'' ''/user/repository_invitations'' ''GET'' JNull []
     = (invitation_list, [Net (fetch_request ''t2'')])"
    by code_simp
  have p: "call (fixed_world invitations_host) ''t2''
             (''/user/repository_invitations/'' @ fmt (fixed_world invitations_host) (JNum 42))
             ''PATCH'' JNull [Net (fetch_request ''t2'')]
     = (JObj [], [Net (fetch_request ''t2''),
          Net (client_request ''t2'' ''/user/repository_invitations/42'' ''PATCH'' JNull)])"
    by code_simp
  have i: "\<forall>i\<in>set [JObj [(''id'', JNum 7), (''repository'', JObj [(''full_name'', JStr ''other/repo'')])],
           JObj [(''id'', JNum 42), (''repository'', JObj [(''full_name'', JStr ''adm/hapus'')])]].
         is_invitation i"
    by (simp add: is_invitation_def)
  have wf: "\<forall>s t r invs. respond (fixed_world invitations_host) s (fetch_request t) = Response r
                       \<and> content r = Json_body (JArr invs) \<longrightarrow>
                     (\<forall>i\<in>set invs. is_invitation i)"
    by (auto simp: fixed_world_def invitations_host_def fetch_request_def client_request_def
        reply_def invitation_list_def is_invitation_def)
  note t = accept_member_once[OF f, where repo = "''adm/hapus''" and u = "''bob''"
      and pairs = "[(''bob'', ''t2''), (''carol'', ''t3'')]" and st = "[]"]
  have m: "accept_member (fixed_world invitations_host) ''adm/hapus'' ''bob'' ''t2'' [] =
       (Inr (),
        [Net (fetch_request ''t2''),
         Net (client_request ''t2'' ''/user/repository_invitations/42'' ''PATCH'' JNull),
         Print (Accepted_invitation ''bob''), Sleep 800])"
    using t f i p
    by (simp add: invitation_list_def repository_full_name_def invitation_id_def)
  from t wf have "\<exists>ev. accept_phase (fixed_world invitations_host) ''adm/hapus''
               [(''bob'', ''t2''), (''carol'', ''t3'')] [] = (Inr (), [] @ ev)
          \<and> gets_of ev = map (\<lambda>p. fetch_request (snd p))
                 (filter (\<lambda>p. fst p \<noteq> [] \<and> snd p \<noteq> []) [(''bob'', ''t2''), (''carol'', ''t3'')])"
    by blast
  then have ph: "\<exists>ev. accept_phase (fixed_world invitations_host) ''adm/hapus''
               [(''bob'', ''t2''), (''carol'', ''t3'')] [] = (Inr (), [] @ ev)
          \<and> gets_of ev = [fetch_request ''t2'', fetch_request ''t3'']"
    by simp
  from f i m ph show ?thesis by simp
qed

text \<open>
  The claim as written fails on a list with an entry whose repository is null before the
  entry for the target repository: the entry for the target is in the list, yet no PATCH
  is sent and the member is not reported; the exception leaves the loop and the next
  member is never processed.
\<close>

theorem malformed_entry_counterexample:
  "call (fixed_world malformed_host) ''t2'' ''/user/repository_invitations'' ''GET'' JNull []
     = (JArr [JObj [(''id'', JNum 7), (''repository'', JNull)],
              JObj [(''id'', JNum 42),
                    (''repository'', JObj [(''full_name'', JStr ''adm/hapus'')])]],
        [Net (fetch_request ''t2'')])
   \<and> repository_full_name
        (JObj [(''id'', JNum 42), (''repository'', JObj [(''full_name'', JStr ''adm/hapus'')])])
       = JStr ''adm/hapus''
   \<and> accept_member (fixed_world malformed_host) ''adm/hapus'' ''bob'' ''t2'' []
       = (Inl AttributeError, [Net (fetch_request ''t2'')])
   \<and> accept_phase (fixed_world malformed_host) ''adm/hapus''
        [(''bob'', ''t2''), (''carol'', ''t3'')] []
       = (Inl AttributeError, [Net (fetch_request ''t2'')])"
  by code_simp

text \<open>
  C1, where the code departs from it. \<open>PAT2\<close> is not set while \<open>USERNAME2\<close> is:
  the member \<open>alice\<close> (\<open>USERNAME2\<close>) is paired with the token \<open>t3\<close> of \<open>PAT3\<close>,
  which is configured for \<open>bob\<close> (\<open>USERNAME3\<close>). The fetch and the accepting PATCH
  reported for \<open>alice\<close> are sent under \<open>bob\<close>'s credential, and \<open>bob\<close> gets no turn.
\<close>

theorem misaligned_tokens_run:
  "gap_env ''USERNAME2'' = Some ''alice'' \<and> gap_env ''PAT2'' = None
   \<and> gap_env ''USERNAME3'' = Some ''bob'' \<and> gap_env ''PAT3'' = Some ''t3''
   \<and> collaborators_main gap_env (fixed_world invitations_host) =
       (Inr (),
        [Net (invite_request ''t1'' ''adm/hapus'' ''alice''), Print (Invitation_sent ''alice''),
         Sleep 800,
         Net (invite_request ''t1'' ''adm/hapus'' ''bob''), Print (Invitation_sent ''bob''),
         Sleep 800, Sleep 5000,
         Net (fetch_request ''t3''),
         Net (client_request ''t3'' ''/user/repository_invitations/42'' ''PATCH'' JNull),
         Print (Accepted_invitation ''alice''), Sleep 800])"
  by code_simp

end
